theory Spec2Isabelle
  imports Complex_Main
begin

section \<open>Time values and calendar arithmetic\<close>

text \<open>
  A JavaScript \<^verbatim>\<open>Date\<close> holds a time value, an integral number of milliseconds since
  the epoch, so a date is an \<open>int\<close>. Every other \<^verbatim>\<open>number\<close> is an IEEE double, here a
  real number that a double holds; the arithmetic on pixel positions and on time values
  as numbers rounds each result to the nearest double (\<open>roundDouble\<close> below). Not
  modelled are \<^verbatim>\<open>NaN\<close>, the infinities, overflow and underflow (the exponent of a
  double is unbounded here), and the limit of the time range (8.64e15 ms around the
  epoch, beyond which a \<^verbatim>\<open>Date\<close> is invalid). Two results are written without the
  rounding: the quotient of \<open>diffInDays\<close> and the sum of a day of the month and a day
  count in \<open>addDays\<close>. The code computes exactly these whenever they are doubles
  themselves, as they are for every whole number of days below \<open>2 ^ 53\<close> and for the
  durations of the examples.

  Local time is a fixed offset \<open>tza\<close> from UTC, in milliseconds (the \<^verbatim>\<open>LocalTZA\<close> of the
  language definition for a zone without daylight-saving transitions, where every
  calendar day has 86400000 ms). Every function that reads or writes local calendar
  fields takes \<open>tza\<close> as its first argument; what is proved of these functions is proved
  of such zones.
\<close>

type_synonym date = int

definition MS_PER_DAY :: int where
  "MS_PER_DAY = 24 * 60 * 60 * 1000"

subsection \<open>Double-precision arithmetic\<close>

text \<open>
  A double is a whole number below \<open>2 ^ 53\<close> in magnitude times a power of two. The
  double nearest to a real \<open>x\<close> other than 0 has the exponent that puts the whole number
  between \<open>2 ^ 52\<close> and \<open>2 ^ 53\<close>, and the whole number nearest to the scaled \<open>x\<close>, the
  even one when two are equally near.
\<close>

definition roundTiesToEven :: "real \<Rightarrow> int" where
  "roundTiesToEven y =
     (let f = \<lfloor>y\<rfloor>; r = y - real_of_int f
      in if r < 1 / 2 then f
         else if 1 / 2 < r then f + 1
         else if even f then f else f + 1)"

text \<open>
  The binary exponent of a positive number \<open>x\<close> is the whole number \<open>e\<close> with
  \<open>2 ^ e \<le> x < 2 ^ (e + 1)\<close>, found by halving a number that is 2 or more and by
  doubling a number below 1.
\<close>

function exponentUp :: "real \<Rightarrow> int" where
  "exponentUp x = (if x < 2 then 0 else exponentUp (x / 2) + 1)"
  by auto
termination
proof (relation "measure (\<lambda>x. nat \<lceil>x\<rceil>)")
  show "wf (measure (\<lambda>x. nat \<lceil>x\<rceil>))" by simp
  fix x :: real
  assume "\<not> x < 2"
  then have "\<lceil>x / 2\<rceil> < \<lceil>x\<rceil>" by linarith
  moreover have "0 < \<lceil>x\<rceil>" using \<open>\<not> x < 2\<close> by linarith
  ultimately show "(x / 2, x) \<in> measure (\<lambda>x. nat \<lceil>x\<rceil>)" by simp
qed

function exponentDown :: "real \<Rightarrow> int" where
  "exponentDown x = (if x \<le> 0 \<or> 1 \<le> x then 0 else exponentDown (2 * x) - 1)"
  by auto
termination
proof (relation "measure (\<lambda>x. nat \<lceil>1 / x\<rceil>)")
  show "wf (measure (\<lambda>x. nat \<lceil>1 / x\<rceil>))" by simp
  fix x :: real
  assume "\<not> (x \<le> 0 \<or> 1 \<le> x)"
  then have x: "0 < x" "x < 1" by simp_all
  define y where "y = 1 / x"
  have y: "1 < y" unfolding y_def using x by simp
  have h: "1 / (2 * x) = y / 2" unfolding y_def by simp
  have "\<lceil>y / 2\<rceil> < \<lceil>y\<rceil>"
  proof (cases "y < 2")
    case True
    then have "\<lceil>y / 2\<rceil> \<le> 1" by (simp add: ceiling_le_iff)
    moreover have "2 \<le> \<lceil>y\<rceil>" using y by linarith
    ultimately show ?thesis by linarith
  next
    case False
    then show ?thesis by linarith
  qed
  then have "\<lceil>1 / (2 * x)\<rceil> < \<lceil>1 / x\<rceil>" unfolding h y_def .
  moreover have "0 < \<lceil>1 / x\<rceil>" using y unfolding y_def by linarith
  ultimately show "(2 * x, x) \<in> measure (\<lambda>x. nat \<lceil>1 / x\<rceil>)" by simp
qed

declare exponentUp.simps [simp del] exponentDown.simps [simp del]

definition binaryExponent :: "real \<Rightarrow> int" where
  "binaryExponent x = (if 1 \<le> x then exponentUp x else exponentDown x)"

definition pow2 :: "int \<Rightarrow> real" where
  "pow2 e = (if 0 \<le> e then 2 ^ nat e else 1 / 2 ^ nat (- e))"

definition roundDouble :: "real \<Rightarrow> real" where
  "roundDouble x =
     (if x = 0 then 0
      else (let e = binaryExponent \<bar>x\<bar> - 52
            in real_of_int (roundTiesToEven (x / pow2 e)) * pow2 e))"

subsection \<open>Dates\<close>

text \<open>
  \<^verbatim>\<open>new Date(v)\<close> for a number \<open>v\<close> keeps the integral part of \<open>v\<close>, rounding toward
  zero (\<^verbatim>\<open>TimeClip\<close>).
\<close>

definition newDate :: "real \<Rightarrow> date" where
  "newDate v = (if 0 \<le> v then \<lfloor>v\<rfloor> else \<lceil>v\<rceil>)"

text \<open>The abstract operations of the language definition on time values.\<close>

definition msPerDay :: int where
  "msPerDay = 86400000"

definition LocalTime :: "int \<Rightarrow> int \<Rightarrow> int" where
  "LocalTime tza t = t + tza"

definition UTC :: "int \<Rightarrow> int \<Rightarrow> int" where
  "UTC tza t = t - tza"

definition DayNumber :: "int \<Rightarrow> int" where
  "DayNumber t = t div msPerDay"

definition TimeWithinDay :: "int \<Rightarrow> int" where
  "TimeWithinDay t = t mod msPerDay"

definition MakeTime :: "int \<Rightarrow> int \<Rightarrow> int \<Rightarrow> int \<Rightarrow> int" where
  "MakeTime h m s ms = h * 3600000 + m * 60000 + s * 1000 + ms"

definition MakeDate :: "int \<Rightarrow> int \<Rightarrow> int" where
  "MakeDate dayn time = dayn * msPerDay + time"

text \<open>
  \<^verbatim>\<open>DateFromTime\<close>, the day of the month (1 to 31) of a time value in the proleptic
  Gregorian calendar. Days are counted in 400-year eras of 146097 days that begin on
  1 March, so that the leap day is the last day of a year: \<open>doe\<close> is the day of the era,
  \<open>yoe\<close> the year of the era, \<open>doy\<close> the day of that March-based year and \<open>mp\<close> its
  month (0 is March).
\<close>

definition DateFromTime :: "int \<Rightarrow> int" where
  "DateFromTime t =
     (let doe = (DayNumber t + 719468) mod 146097;
          yoe = (doe - doe div 1460 + doe div 36524 - doe div 146096) div 365;
          doy = doe - (365 * yoe + yoe div 4 - yoe div 100);
          mp = (5 * doy + 2) div 153
      in doy - (153 * mp + 2) div 5 + 1)"

text \<open>
  \<^verbatim>\<open>date.setHours(h, m, s, ms)\<close>: the local day of the date with the given time of day.
\<close>

definition setHours :: "int \<Rightarrow> date \<Rightarrow> int \<Rightarrow> int \<Rightarrow> int \<Rightarrow> int \<Rightarrow> date" where
  "setHours tza d h m s ms =
     UTC tza (MakeDate (DayNumber (LocalTime tza d)) (MakeTime h m s ms))"

definition getDate :: "int \<Rightarrow> date \<Rightarrow> int" where
  "getDate tza d = DateFromTime (LocalTime tza d)"

text \<open>
  \<^verbatim>\<open>date.setDate(v)\<close> keeps the local year, month and time of day, and moves to day
  \<open>v\<close> of that month, where \<open>v\<close> is first rounded toward zero (\<^verbatim>\<open>MakeDay\<close> applies
  \<^verbatim>\<open>ToIntegerOrInfinity\<close> to it); a day outside the month counts on into the
  neighbouring months. The first day of the month of \<open>t\<close> has day number
  \<open>DayNumber t - (DateFromTime t - 1)\<close>, and day \<open>v\<close> of the month lies \<open>v - 1\<close> days
  after it.
\<close>

definition setDate :: "int \<Rightarrow> date \<Rightarrow> real \<Rightarrow> date" where
  "setDate tza d v =
     (let t = LocalTime tza d;
          dt = (if 0 \<le> v then \<lfloor>v\<rfloor> else \<lceil>v\<rceil>);
          firstOfMonth = DayNumber t - (DateFromTime t - 1)
      in UTC tza (MakeDate (firstOfMonth + dt - 1) (TimeWithinDay t)))"

subsection \<open>The date utilities of the library\<close>

definition startOfDay :: "int \<Rightarrow> date \<Rightarrow> date" where
  "startOfDay tza d = setHours tza d 0 0 0 0"


definition addDays :: "int \<Rightarrow> date \<Rightarrow> real \<Rightarrow> date" where
  "addDays tza d days = setDate tza d (real_of_int (getDate tza d) + days)"

definition diffInDays :: "date \<Rightarrow> date \<Rightarrow> real" where
  "diffInDays startDate endDate = real_of_int (endDate - startDate) / real_of_int MS_PER_DAY"

section \<open>The coordinate engine\<close>

datatype ViewMode = DayMode | WeekMode | MonthMode

record DateRange =
  range_start :: date
  range_end :: date
  totalDays :: real

definition dateToX :: "date \<Rightarrow> DateRange \<Rightarrow> real \<Rightarrow> real" where
  "dateToX d dateRange chartWidth =
     (let totalMs = roundDouble
            (real_of_int (range_end dateRange) - real_of_int (range_start dateRange));
          dateMs = roundDouble (real_of_int d - real_of_int (range_start dateRange))
      in roundDouble (roundDouble (dateMs / totalMs) * chartWidth))"

definition xToDate :: "real \<Rightarrow> DateRange \<Rightarrow> real \<Rightarrow> date" where
  "xToDate x dateRange chartWidth =
     (let totalMs = roundDouble
            (real_of_int (range_end dateRange) - real_of_int (range_start dateRange));
          dateMs = roundDouble (roundDouble (x / chartWidth) * totalMs)
      in newDate (roundDouble (real_of_int (range_start dateRange) + dateMs)))"

definition calculateBarWidth :: "date \<Rightarrow> date \<Rightarrow> DateRange \<Rightarrow> real \<Rightarrow> real \<Rightarrow> real" where
  "calculateBarWidth startDate endDate dateRange chartWidth minWidth =
     (let startX = dateToX startDate dateRange chartWidth;
          endX = dateToX endDate dateRange chartWidth
      in max (roundDouble (endX - startX)) minWidth)"

definition snapToGrid :: "int \<Rightarrow> real \<Rightarrow> DateRange \<Rightarrow> real \<Rightarrow> ViewMode \<Rightarrow> real" where
  "snapToGrid tza x dateRange chartWidth viewMode =
     (let d = xToDate x dateRange chartWidth;
          snappedDate = (case viewMode of
              DayMode \<Rightarrow> startOfDay tza d
            | WeekMode \<Rightarrow> startOfDay tza d
            | MonthMode \<Rightarrow> startOfDay tza d)
      in dateToX snappedDate dateRange chartWidth)"

section \<open>Tasks\<close>

datatype TaskType = Task | Milestone | Group

text \<open>
  The fields of \<^verbatim>\<open>GanttTask\<close> that the layout and the drag controller read. The
  optional flag \<^verbatim>\<open>isDisabled\<close> is only ever tested for truthiness, so it is a \<open>bool\<close>
  (absent is \<open>False\<close>). The remaining fields (dependencies, critical flag, colour,
  styles, payload) are carried along unread and are left out.
\<close>

record GanttTask =
  task_id :: string
  task_name :: string
  task_type :: TaskType
  task_start :: date
  task_end :: date
  progress :: real
  baselineStart :: "date option"
  baselineEnd :: "date option"
  parentId :: "string option"
  isDisabled :: bool

text \<open>\<^verbatim>\<open>ComputedTask extends GanttTask\<close>.\<close>

record ComputedTask = GanttTask +
  bar_x :: real
  bar_width :: real
  rowIndex :: int
  baselineX :: "real option"
  baselineWidth :: "real option"
  level :: int
  isCollapsed :: bool
  isVisible :: bool

section \<open>The date range of a task list\<close>




section \<open>The hierarchy flattener and the position compiler\<close>

record FlatEntry =
  entry_task :: GanttTask
  entry_level :: int
  entry_isVisible :: bool

text \<open>
  A root has no parent id, or an empty one (the empty string is falsy), or one that no
  task of the list carries.
\<close>

definition isRoot :: "GanttTask list \<Rightarrow> GanttTask \<Rightarrow> bool" where
  "isRoot tasks t =
     (case parentId t of
        None \<Rightarrow> True
      | Some p \<Rightarrow> p = [] \<or> p \<notin> set (map task_id tasks))"

definition childrenOf :: "GanttTask list \<Rightarrow> GanttTask \<Rightarrow> GanttTask list" where
  "childrenOf tasks task = filter (\<lambda>t. parentId t = Some (task_id task)) tasks"

text \<open>
  \<^verbatim>\<open>addTask\<close> pushes the entry of a task and then recurses into its children. The
  recursion is not bounded by the code: the first argument is the number of nested
  calls that are allowed, and \<open>None\<close> is a recursion that needs more. The result is
  the list of the entries pushed, in the order of the pushes.
\<close>

fun addTask ::
  "nat \<Rightarrow> GanttTask list \<Rightarrow> string set \<Rightarrow> GanttTask \<Rightarrow> int \<Rightarrow> bool \<Rightarrow> FlatEntry list option" where
  "addTask 0 tasks collapsedIds task lvl parentVisible = None"
| "addTask (Suc fuel) tasks collapsedIds task lvl parentVisible =
     (let isCollapsed = task_id task \<in> collapsedIds;
          isVisible = parentVisible;
          entry = \<lparr>entry_task = task, entry_level = lvl, entry_isVisible = isVisible\<rparr>;
          children = childrenOf tasks task
      in map_option (\<lambda>pushed. entry # concat pushed)
           (those (map (\<lambda>child. addTask fuel tasks collapsedIds child (lvl + 1)
                                   (isVisible \<and> \<not> isCollapsed)) children)))"

definition flattenTasks :: "nat \<Rightarrow> GanttTask list \<Rightarrow> string set \<Rightarrow> FlatEntry list option" where
  "flattenTasks fuel tasks collapsedIds =
     (let rootTasks = filter (isRoot tasks) tasks
      in map_option concat
           (those (map (\<lambda>task. addTask fuel tasks collapsedIds task 0 True) rootTasks)))"

text \<open>
  The callback of the \<^verbatim>\<open>map\<close> in \<^verbatim>\<open>computeTaskPositions\<close> reads and increments the
  variable \<^verbatim>\<open>visibleRowIndex\<close> of the enclosing function. \<open>computeEntry\<close> is the
  callback for a given row index, and \<open>positionsFrom\<close> is the \<^verbatim>\<open>map\<close>, with the
  variable as an argument. The two baseline variables are the pair \<open>baseline\<close>; both
  baseline dates, when present, are \<^verbatim>\<open>Date\<close> objects and so truthy. The default
  minimum width of a bar is 4. The unused parameter \<^verbatim>\<open>_config\<close> is left out.
\<close>

definition computeEntry ::
  "DateRange \<Rightarrow> real \<Rightarrow> string set \<Rightarrow> int \<Rightarrow> FlatEntry \<Rightarrow> ComputedTask" where
  "computeEntry dateRange chartWidth collapsedIds row e =
     (let task = entry_task e;
          x = dateToX (task_start task) dateRange chartWidth;
          width = calculateBarWidth (task_start task) (task_end task) dateRange chartWidth 4;
          baseline = (case (baselineStart task, baselineEnd task) of
              (Some bs, Some be) \<Rightarrow>
                (Some (dateToX bs dateRange chartWidth),
                 Some (calculateBarWidth bs be dateRange chartWidth 4))
            | _ \<Rightarrow> (None, None))
      in GanttTask.extend task
           (ComputedTask.fields x width row (fst baseline) (snd baseline) (entry_level e)
              (task_id task \<in> collapsedIds) (entry_isVisible e)))"

fun positionsFrom ::
  "DateRange \<Rightarrow> real \<Rightarrow> string set \<Rightarrow> int \<Rightarrow> FlatEntry list \<Rightarrow> ComputedTask list" where
  "positionsFrom dateRange chartWidth collapsedIds visibleRowIndex [] = []"
| "positionsFrom dateRange chartWidth collapsedIds visibleRowIndex (e # es) =
     (let row = (if entry_isVisible e then visibleRowIndex else - 1);
          nextRowIndex = (if entry_isVisible e then visibleRowIndex + 1 else visibleRowIndex)
      in computeEntry dateRange chartWidth collapsedIds row e
         # positionsFrom dateRange chartWidth collapsedIds nextRowIndex es)"

definition computeTaskPositions ::
  "nat \<Rightarrow> GanttTask list \<Rightarrow> DateRange \<Rightarrow> real \<Rightarrow> string set \<Rightarrow> ComputedTask list option" where
  "computeTaskPositions fuel tasks dateRange chartWidth collapsedIds =
     map_option (positionsFrom dateRange chartWidth collapsedIds 0)
       (flattenTasks fuel tasks collapsedIds)"

section \<open>The drag and resize controller\<close>

datatype DragMode = Move | ResizeLeft | ResizeRight

text \<open>The type \<^verbatim>\<open>DragMode\<close> of the source includes \<^verbatim>\<open>null\<close>: a mode is an option.\<close>

record DragState =
  ds_task :: ComputedTask
  ds_mode :: "DragMode option"
  startX :: real
  startTaskX :: real
  startTaskWidth :: real
  originalStart :: date
  originalEnd :: date

text \<open>
  The options the hook reads, and what the hook holds between events: three React
  states and three refs. The hook's callbacks are optional properties of the options;
  here every call of one is an item of the list an event handler returns, in the order
  of the calls.
\<close>

record UseDragOptions =
  dateRange :: DateRange
  chartWidth :: real
  viewMode :: ViewMode
  allowDrag :: bool
  allowResize :: bool

record DragHook =
  isDragging :: bool
  previewStart :: "date option"
  previewEnd :: "date option"
  dragState :: "DragState option"
  previewStartRef :: "date option"
  previewEndRef :: "date option"

datatype Callback =
    OnDragStart ComputedTask
  | OnDragMove ComputedTask date date
  | OnDragEnd ComputedTask date date bool bool

definition handleMouseDown ::
  "UseDragOptions \<Rightarrow> DragHook \<Rightarrow> ComputedTask \<Rightarrow> real \<Rightarrow> DragMode option
     \<Rightarrow> DragHook \<times> Callback list" where
  "handleMouseDown opts st task clientX mode =
     (if isDisabled task then (st, [])
      else if mode = None then (st, [])
      else if mode = Some Move \<and> \<not> allowDrag opts then (st, [])
      else if (mode = Some ResizeLeft \<or> mode = Some ResizeRight) \<and> \<not> allowResize opts
        then (st, [])
      else
        (st\<lparr>dragState := Some \<lparr>ds_task = task, ds_mode = mode, startX = clientX,
               startTaskX = bar_x task, startTaskWidth = bar_width task,
               originalStart = task_start task, originalEnd = task_end task\<rparr>,
             previewStartRef := Some (task_start task),
             previewEndRef := Some (task_end task),
             isDragging := True,
             previewStart := Some (task_start task),
             previewEnd := Some (task_end task)\<rparr>,
         [OnDragStart task]))"

text \<open>
  The three document listeners are registered by an effect that runs only while
  \<^verbatim>\<open>isDragging\<close> holds; without it, no event reaches them. The candidate dates of a
  pointer-move, before the normalisation to the start of the day; \<open>None\<close> is the
  \<^verbatim>\<open>default: return\<close> of the \<^verbatim>\<open>switch\<close>.
\<close>

definition candidateDates ::
  "int \<Rightarrow> UseDragOptions \<Rightarrow> DragState \<Rightarrow> real \<Rightarrow> (date \<times> date) option" where
  "candidateDates tza opts state deltaX =
     (case ds_mode state of
        Some Move \<Rightarrow>
          (let newX = roundDouble (startTaskX state + deltaX);
               snappedX = snapToGrid tza newX (dateRange opts) (chartWidth opts) (viewMode opts);
               newStart = xToDate snappedX (dateRange opts) (chartWidth opts);
               duration = diffInDays (originalStart state) (originalEnd state);
               newEnd = addDays tza newStart duration
           in Some (newStart, newEnd))
      | Some ResizeLeft \<Rightarrow>
          (let newX = roundDouble (startTaskX state + deltaX);
               snappedX = snapToGrid tza newX (dateRange opts) (chartWidth opts) (viewMode opts);
               newStart = xToDate snappedX (dateRange opts) (chartWidth opts);
               newEnd = originalEnd state;
               newStart = (if newStart \<ge> newEnd then addDays tza newEnd (- 1) else newStart)
           in Some (newStart, newEnd))
      | Some ResizeRight \<Rightarrow>
          (let newWidth = roundDouble (startTaskWidth state + deltaX);
               newEndX = roundDouble (startTaskX state + newWidth);
               snappedEndX =
                 snapToGrid tza newEndX (dateRange opts) (chartWidth opts) (viewMode opts);
               newStart = originalStart state;
               newEnd = xToDate snappedEndX (dateRange opts) (chartWidth opts);
               newEnd = (if newEnd \<le> newStart then addDays tza newStart 1 else newEnd)
           in Some (newStart, newEnd))
      | None \<Rightarrow> None)"

definition handleMouseMove ::
  "int \<Rightarrow> UseDragOptions \<Rightarrow> DragHook \<Rightarrow> real \<Rightarrow> DragHook \<times> Callback list" where
  "handleMouseMove tza opts st clientX =
     (if \<not> isDragging st then (st, [])
      else case dragState st of
        None \<Rightarrow> (st, [])
      | Some state \<Rightarrow>
          (let deltaX = roundDouble (clientX - startX state)
           in case candidateDates tza opts state deltaX of
                None \<Rightarrow> (st, [])
              | Some (candStart, candEnd) \<Rightarrow>
                  (let newStart = startOfDay tza candStart;
                       newEnd = startOfDay tza candEnd
                   in (st\<lparr>previewStartRef := Some newStart,
                          previewEndRef := Some newEnd,
                          previewStart := Some newStart,
                          previewEnd := Some newEnd\<rparr>,
                       [OnDragMove (ds_task state) newStart newEnd]))))"

definition isResizeMode :: "DragMode option \<Rightarrow> bool" where
  "isResizeMode mode = (mode = Some ResizeLeft \<or> mode = Some ResizeRight)"

definition handleMouseUp :: "DragHook \<Rightarrow> DragHook \<times> Callback list" where
  "handleMouseUp st =
     (if \<not> isDragging st then (st, [])
      else case dragState st of
        None \<Rightarrow> (st, [])
      | Some state \<Rightarrow>
          (let currentPreviewStart = previewStartRef st;
               currentPreviewEnd = previewEndRef st;
               moved = (case (currentPreviewStart, currentPreviewEnd) of
                   (Some s, Some e) \<Rightarrow> s \<noteq> originalStart state \<or> e \<noteq> originalEnd state
                 | _ \<Rightarrow> False);
               isResize = isResizeMode (ds_mode state)
           in (st\<lparr>isDragging := False,
                  previewStartRef := None, previewEndRef := None,
                  previewStart := None, previewEnd := None,
                  dragState := None\<rparr>,
               [OnDragEnd (ds_task state)
                  (case currentPreviewStart of Some s \<Rightarrow> s | None \<Rightarrow> originalStart state)
                  (case currentPreviewEnd of Some e \<Rightarrow> e | None \<Rightarrow> originalEnd state)
                  (\<not> moved) isResize])))"

definition handleKeyDown :: "DragHook \<Rightarrow> string \<Rightarrow> DragHook \<times> Callback list" where
  "handleKeyDown st key =
     (if \<not> isDragging st then (st, [])
      else if key = ''Escape'' then
        (case dragState st of
           None \<Rightarrow> (st, [])
         | Some state \<Rightarrow>
             (let isResize = isResizeMode (ds_mode state)
              in (st\<lparr>isDragging := False,
                     previewStartRef := None, previewEndRef := None,
                     previewStart := None, previewEnd := None,
                     dragState := None\<rparr>,
                  [OnDragEnd (ds_task state) (originalStart state) (originalEnd state)
                     True isResize])))
      else (st, []))"

text \<open>
  \<^verbatim>\<open>handleTaskDragStart\<close> of the chart component: every pointer-down on a bar passes
  through it before it reaches the hook.
\<close>

definition handleTaskDragStart ::
  "UseDragOptions \<Rightarrow> DragHook \<Rightarrow> ComputedTask \<Rightarrow> real \<Rightarrow> DragMode
     \<Rightarrow> DragHook \<times> Callback list" where
  "handleTaskDragStart opts st task clientX mode =
     (if isDisabled task \<or> task_type task = Group then (st, [])
      else handleMouseDown opts st task clientX (Some mode))"

text \<open>A gesture as a sequence of events, with the options fixed for its duration.\<close>

datatype Event =
    MouseDown ComputedTask real DragMode
  | MouseMove real
  | MouseUp
  | KeyDown string

definition handleEvent ::
  "int \<Rightarrow> UseDragOptions \<Rightarrow> DragHook \<Rightarrow> Event \<Rightarrow> DragHook \<times> Callback list" where
  "handleEvent tza opts st ev =
     (case ev of
        MouseDown task clientX mode \<Rightarrow> handleTaskDragStart opts st task clientX mode
      | MouseMove clientX \<Rightarrow> handleMouseMove tza opts st clientX
      | MouseUp \<Rightarrow> handleMouseUp st
      | KeyDown key \<Rightarrow> handleKeyDown st key)"

fun runEvents ::
  "int \<Rightarrow> UseDragOptions \<Rightarrow> DragHook \<Rightarrow> Event list \<Rightarrow> DragHook \<times> Callback list" where
  "runEvents tza opts st [] = (st, [])"
| "runEvents tza opts st (ev # evs) =
     (let (st1, calls1) = handleEvent tza opts st ev;
          (st2, calls2) = runEvents tza opts st1 evs
      in (st2, calls1 @ calls2))"

definition idle :: DragHook where
  "idle = \<lparr>isDragging = False, previewStart = None, previewEnd = None, dragState = None,
           previewStartRef = None, previewEndRef = None\<rparr>"

section \<open>Parents and ancestors\<close>

text \<open>
  The parent of a task is the task of the list that carries its parent id; a root has
  none. The ancestors of a task are its parent, the parent of its parent and so on, up
  to a root, nearest first. The chain is followed for at most the given number of
  steps; \<open>None\<close> is a chain that is longer. The parent references of a list are acyclic
  when the chain of every task reaches a root within as many steps as the list has
  tasks.

  The root test of the flattener reads an empty parent id as an absent one, and its scan
  for the children of a task compares ids as they are. The two agree on who is a child
  of whom when no task has the empty string as its id; together with the uniqueness of
  ids, that is what the properties of the flattener assume of a task list.
\<close>

definition parentOf :: "GanttTask list \<Rightarrow> GanttTask \<Rightarrow> GanttTask option" where
  "parentOf tasks t =
     (if isRoot tasks t then None else find (\<lambda>a. parentId t = Some (task_id a)) tasks)"

fun ancestors :: "nat \<Rightarrow> GanttTask list \<Rightarrow> GanttTask \<Rightarrow> GanttTask list option" where
  "ancestors 0 tasks t = (case parentOf tasks t of None \<Rightarrow> Some [] | Some p \<Rightarrow> None)"
| "ancestors (Suc n) tasks t =
     (case parentOf tasks t of
        None \<Rightarrow> Some []
      | Some p \<Rightarrow> map_option (\<lambda>as. p # as) (ancestors n tasks p))"

definition acyclic_parents :: "GanttTask list \<Rightarrow> bool" where
  "acyclic_parents tasks = list_all (\<lambda>t. ancestors (length tasks) tasks t \<noteq> None) tasks"

section \<open>Example data\<close>

text \<open>
  A range of ten days from the epoch, drawn 1000 pixels wide (100 pixels a day), in UTC,
  and the computed bar of a task that starts at the epoch and ends four and a half days
  later.
\<close>

definition exampleRange :: DateRange where
  "exampleRange = \<lparr>range_start = 0, range_end = 864000000, totalDays = 10\<rparr>"

definition exampleOptions :: UseDragOptions where
  "exampleOptions = \<lparr>dateRange = exampleRange, chartWidth = 1000, viewMode = DayMode,
     allowDrag = True, allowResize = True\<rparr>"

definition exampleBar :: ComputedTask where
  "exampleBar = \<lparr>task_id = ''t1'', task_name = ''Framing'', task_type = Task,
     task_start = 0, task_end = 388800000, progress = 0,
     baselineStart = None, baselineEnd = None, parentId = None, isDisabled = False,
     bar_x = 0, bar_width = 450, rowIndex = 0, baselineX = None, baselineWidth = None,
     level = 0, isCollapsed = False, isVisible = True\<rparr>"


text \<open>
  A range of four days from the epoch as \<open>calculateDateRange\<close> derives it, ending at
  23:59:59.999 of the fourth day, drawn 160 pixels wide (the width of the day view,
  40 pixels a day).
\<close>

definition epochRange :: DateRange where
  "epochRange = \<lparr>range_start = 0, range_end = 345599999, totalDays = 4\<rparr>"

text \<open>
  A task whose id is the empty string, and a task that names it as its parent.
\<close>

definition taskE :: GanttTask where
  "taskE = \<lparr>task_id = '''', task_name = ''Phase'', task_type = Group,
     task_start = 0, task_end = 432000000, progress = 0,
     baselineStart = None, baselineEnd = None, parentId = None, isDisabled = False\<rparr>"

definition taskK :: GanttTask where
  "taskK = \<lparr>task_id = ''K'', task_name = ''Step'', task_type = Task,
     task_start = 0, task_end = 86400000, progress = 0,
     baselineStart = None, baselineEnd = None, parentId = Some '''', isDisabled = False\<rparr>"


text \<open>
  Three nested tasks: \<open>A\<close> is a root, \<open>B\<close> a child of \<open>A\<close> and \<open>C\<close> a child of \<open>B\<close>.
\<close>

definition taskA :: GanttTask where
  "taskA = \<lparr>task_id = ''A'', task_name = ''Structure'', task_type = Group,
     task_start = 0, task_end = 432000000, progress = 0,
     baselineStart = None, baselineEnd = None, parentId = None, isDisabled = False\<rparr>"

definition taskB :: GanttTask where
  "taskB = \<lparr>task_id = ''B'', task_name = ''Framing'', task_type = Group,
     task_start = 0, task_end = 259200000, progress = 0,
     baselineStart = None, baselineEnd = None, parentId = Some ''A'', isDisabled = False\<rparr>"

definition taskC :: GanttTask where
  "taskC = \<lparr>task_id = ''C'', task_name = ''Walls'', task_type = Task,
     task_start = 86400000, task_end = 259200000, progress = 0,
     baselineStart = Some 0, baselineEnd = Some 172800000, parentId = Some ''B'',
     isDisabled = False\<rparr>"

definition scenarioC :: "GanttTask list" where
  "scenarioC = [taskA, taskB, taskC]"


section \<open>Properties of double-precision rounding\<close>

lemma exponentUp_log: "1 \<le> x \<Longrightarrow> exponentUp x = \<lfloor>log 2 x\<rfloor>"
proof (induction x rule: exponentUp.induct)
  case (1 x)
  show ?case
  proof (cases "x < 2")
    case True
    have "0 \<le> log 2 x" using 1(2) by simp
    moreover have "log 2 x < 1" using True 1(2) by (simp add: log_less_iff)
    ultimately have "\<lfloor>log 2 x\<rfloor> = 0" by linarith
    then show ?thesis using True by (simp add: exponentUp.simps [of x])
  next
    case False
    then have h: "1 \<le> x / 2" by simp
    have "log 2 (x / 2) = log 2 x - 1" using False by (simp add: log_divide)
    then have "\<lfloor>log 2 (x / 2)\<rfloor> = \<lfloor>log 2 x\<rfloor> - 1" by simp
    then show ?thesis
      using 1(1) [OF False h] False by (simp add: exponentUp.simps [of x])
  qed
qed

lemma exponentDown_log: "0 < x \<Longrightarrow> x < 1 \<Longrightarrow> exponentDown x = \<lfloor>log 2 x\<rfloor>"
proof (induction x rule: exponentDown.induct)
  case (1 x)
  have c: "\<not> (x \<le> 0 \<or> 1 \<le> x)" using 1(2,3) by simp
  have l: "log 2 (2 * x) = log 2 x + 1" using 1(2) by (simp add: log_mult)
  show ?case
  proof (cases "2 * x < 1")
    case True
    have "exponentDown (2 * x) = \<lfloor>log 2 (2 * x)\<rfloor>"
      using 1(1) [OF c] 1(2) True by simp
    then show ?thesis
      using c l by (simp add: exponentDown.simps [of x])
  next
    case False
    have z: "exponentDown (2 * x) = 0"
      using False by (simp add: exponentDown.simps [of "2 * x"])
    have "0 \<le> log 2 (2 * x)" using False by simp
    moreover have "log 2 (2 * x) < 1" using 1(2,3) by (simp add: log_less_iff)
    ultimately have "\<lfloor>log 2 x\<rfloor> = - 1" unfolding l by linarith
    then show ?thesis
      using c z by (simp add: exponentDown.simps [of x])
  qed
qed

lemma binaryExponent_log: "0 < x \<Longrightarrow> binaryExponent x = \<lfloor>log 2 x\<rfloor>"
  by (simp add: binaryExponent_def exponentUp_log exponentDown_log)

lemma pow2_powr: "pow2 e = 2 powr real_of_int e"
proof (cases "0 \<le> e")
  case True
  then have "real_of_int e = real (nat e)" by simp
  then show ?thesis using True by (simp add: pow2_def powr_realpow del: of_nat_nat)
next
  case False
  then have "real_of_int e = - real (nat (- e))" by simp
  then show ?thesis
    using False by (simp add: pow2_def powr_minus powr_realpow inverse_eq_divide del: of_nat_nat)
qed

lemma roundDouble_log:
  "roundDouble x =
     (if x = 0 then 0
      else (let e = \<lfloor>log 2 \<bar>x\<bar>\<rfloor> - 52
            in real_of_int (roundTiesToEven (x / 2 powr real_of_int e)) * 2 powr real_of_int e))"
  by (simp add: roundDouble_def binaryExponent_log pow2_powr Let_def)

lemma roundTiesToEven_error: "\<bar>real_of_int (roundTiesToEven y) - y\<bar> \<le> 1 / 2"
proof -
  have "real_of_int \<lfloor>y\<rfloor> \<le> y" "y < real_of_int \<lfloor>y\<rfloor> + 1"
    by linarith+
  then show ?thesis
    by (auto simp: roundTiesToEven_def Let_def)
qed

lemma roundTiesToEven_near:
  assumes "\<bar>y - real_of_int m\<bar> < 1 / 2"
  shows "roundTiesToEven y = m"
proof -
  have "\<bar>real_of_int (roundTiesToEven y) - real_of_int m\<bar> < 1"
    using roundTiesToEven_error [of y] assms by linarith
  then have "\<bar>roundTiesToEven y - m\<bar> < 1"
    by (metis of_int_diff of_int_abs of_int_less_1_iff)
  then show ?thesis by simp
qed

lemma roundTiesToEven_of_int: "roundTiesToEven (real_of_int m) = m"
  by (rule roundTiesToEven_near) simp


lemma roundDouble_eq:
  assumes "x \<noteq> 0"
    and "2 powr real_of_int k \<le> \<bar>x\<bar>" and "\<bar>x\<bar> < 2 powr real_of_int (k + 1)"
    and "\<bar>x / 2 powr real_of_int (k - 52) - real_of_int m\<bar> < 1 / 2"
  shows "roundDouble x = real_of_int m * 2 powr real_of_int (k - 52)"
proof -
  have "\<lfloor>log 2 \<bar>x\<bar>\<rfloor> = k"
    using assms(1,2,3) by (subst floor_log_eq_powr_iff) simp_all
  then show ?thesis
    using assms(1) roundTiesToEven_near [OF assms(4)]
    by (simp add: roundDouble_log Let_def)
qed

lemma roundDouble_eq_div:
  assumes "0 < x" and "2 ^ 52 \<le> x * 2 ^ n" and "x * 2 ^ n < 2 ^ 53"
    and "\<bar>x * 2 ^ n - real_of_int m\<bar> < 1 / 2"
  shows "roundDouble x = real_of_int m / 2 ^ n"
proof -
  have p: "2 powr real_of_int (52 - int n - 52) = 1 / 2 ^ n"
    by (simp add: powr_minus powr_realpow inverse_eq_divide)
  have a: "2 powr real_of_int (52 - int n) = 2 ^ 52 / 2 ^ n"
    by (simp add: powr_diff powr_realpow)
  have b: "2 powr real_of_int (52 - int n + 1) = 2 ^ 53 / 2 ^ n"
    by (simp add: powr_diff powr_add powr_realpow)
  have "roundDouble x = real_of_int m * 2 powr real_of_int (52 - int n - 52)"
  proof (rule roundDouble_eq)
    show "x \<noteq> 0" using assms(1) by simp
    show "2 powr real_of_int (52 - int n) \<le> \<bar>x\<bar>"
      unfolding a using assms(1,2) by (simp add: field_simps)
    show "\<bar>x\<bar> < 2 powr real_of_int (52 - int n + 1)"
      unfolding b using assms(1,3) by (simp add: field_simps)
    show "\<bar>x / 2 powr real_of_int (52 - int n - 52) - real_of_int m\<bar> < 1 / 2"
      unfolding p using assms(4) by simp
  qed
  then show ?thesis unfolding p by simp
qed

lemma roundDouble_of_int:
  assumes "\<bar>n\<bar> < 2 ^ 53"
  shows "roundDouble (real_of_int n) = real_of_int n"
proof (cases "n = 0")
  case True
  then show ?thesis by (simp add: roundDouble_log)
next
  case False
  define L where "L = \<lfloor>log 2 \<bar>real_of_int n\<bar>\<rfloor>"
  have n1: "1 \<le> \<bar>real_of_int n\<bar>" using False by (simp flip: of_int_abs)
  have "\<bar>real_of_int n\<bar> < 2 ^ 53" using assms by (simp flip: of_int_abs)
  then have "log 2 \<bar>real_of_int n\<bar> < 53"
    using n1 by (simp add: log_less_iff powr_realpow [symmetric] del: of_int_abs)
  then have L53: "L \<le> 52" unfolding L_def by linarith
  have "0 \<le> log 2 \<bar>real_of_int n\<bar>" using n1 by simp
  then have L0: "0 \<le> L" unfolding L_def by simp
  define j where "j = nat (52 - L)"
  define p where "p = 2 powr real_of_int (L - 52)"
  have e: "real_of_int (L - 52) = - real j" using L53 by (simp add: j_def)
  have p: "p = 1 / 2 ^ j"
    unfolding p_def e by (simp add: powr_minus powr_realpow inverse_eq_divide)
  have fl: "roundDouble (real_of_int n) = real_of_int (roundTiesToEven (real_of_int n / p)) * p"
    using False by (simp add: roundDouble_log Let_def p_def L_def)
  have "real_of_int n / p = real_of_int (n * 2 ^ j)" unfolding p by simp
  then have "roundTiesToEven (real_of_int n / p) = n * 2 ^ j"
    by (simp only: roundTiesToEven_of_int)
  then show ?thesis
    unfolding fl by (simp add: p)
qed


lemma roundDouble_zero: "roundDouble 0 = 0"
  by (simp add: roundDouble_log)

lemma roundDouble_numeral:
  "(numeral n :: int) < 2 ^ 53 \<Longrightarrow> roundDouble (numeral n) = numeral n"
  using roundDouble_of_int [of "numeral n"] by simp

lemma roundDouble_one: "roundDouble 1 = 1"
  using roundDouble_of_int [of 1] by simp


section \<open>Properties of the coordinate engine\<close>











subsection \<open>Evaluation on the example ranges\<close>

lemma dateToX_eval:
  assumes "roundDouble (real_of_int (range_end r) - real_of_int (range_start r)) = T"
    and "roundDouble (real_of_int d - real_of_int (range_start r)) = a"
    and "roundDouble (a / T) = q"
    and "roundDouble (q * w) = x"
  shows "dateToX d r w = x"
  by (simp add: dateToX_def Let_def assms)

lemma xToDate_eval:
  assumes "roundDouble (real_of_int (range_end r) - real_of_int (range_start r)) = T"
    and "roundDouble (x / w) = q"
    and "roundDouble (q * T) = z"
    and "roundDouble (real_of_int (range_start r) + z) = v"
    and "newDate v = n"
  shows "xToDate x r w = n"
  by (simp add: xToDate_def Let_def assms)

lemma example_dateToX_zero: "dateToX 0 exampleRange 1000 = 0"
proof -
  have T: "roundDouble (real_of_int (range_end exampleRange) - real_of_int (range_start exampleRange)) = 864000000"
    by (simp add: exampleRange_def roundDouble_numeral roundDouble_zero)
  have a: "roundDouble (real_of_int 0 - real_of_int (range_start exampleRange)) = 0"
    by (simp add: exampleRange_def roundDouble_numeral roundDouble_zero)
  have q: "roundDouble (0 / 864000000) = 0"
    by (simp add: roundDouble_zero)
  have x: "roundDouble (0 * 1000) = 0"
    by (simp add: roundDouble_zero)
  show ?thesis
    by (rule dateToX_eval [OF T a q x])
qed

lemma example_dateToX_one: "dateToX 86400000 exampleRange 1000 = 100"
proof -
  have T: "roundDouble (real_of_int (range_end exampleRange) - real_of_int (range_start exampleRange)) = 864000000"
    by (simp add: exampleRange_def roundDouble_numeral roundDouble_zero)
  have a: "roundDouble (real_of_int 86400000 - real_of_int (range_start exampleRange)) = 86400000"
    by (simp add: exampleRange_def roundDouble_numeral roundDouble_zero)
  have q: "roundDouble (86400000 / 864000000) = 3602879701896397 / 2 ^ 55"
  proof -
    have "roundDouble (86400000 / 864000000) = real_of_int 7205759403792794 / 2 ^ 56"
      by (rule roundDouble_eq_div) simp_all
    then show ?thesis by simp
  qed
  have x: "roundDouble ((3602879701896397 / 2 ^ 55) * 1000) = 100"
  proof -
    have "roundDouble ((3602879701896397 / 2 ^ 55) * 1000) = real_of_int 7036874417766400 / 2 ^ 46"
      by (rule roundDouble_eq_div) simp_all
    then show ?thesis by simp
  qed
  show ?thesis
    by (rule dateToX_eval [OF T a q x])
qed

lemma example_dateToX_two: "dateToX 172800000 exampleRange 1000 = 200"
proof -
  have T: "roundDouble (real_of_int (range_end exampleRange) - real_of_int (range_start exampleRange)) = 864000000"
    by (simp add: exampleRange_def roundDouble_numeral roundDouble_zero)
  have a: "roundDouble (real_of_int 172800000 - real_of_int (range_start exampleRange)) = 172800000"
    by (simp add: exampleRange_def roundDouble_numeral roundDouble_zero)
  have q: "roundDouble (172800000 / 864000000) = 3602879701896397 / 2 ^ 54"
  proof -
    have "roundDouble (172800000 / 864000000) = real_of_int 7205759403792794 / 2 ^ 55"
      by (rule roundDouble_eq_div) simp_all
    then show ?thesis by simp
  qed
  have x: "roundDouble ((3602879701896397 / 2 ^ 54) * 1000) = 200"
  proof -
    have "roundDouble ((3602879701896397 / 2 ^ 54) * 1000) = real_of_int 7036874417766400 / 2 ^ 45"
      by (rule roundDouble_eq_div) simp_all
    then show ?thesis by simp
  qed
  show ?thesis
    by (rule dateToX_eval [OF T a q x])
qed

lemma example_dateToX_three: "dateToX 259200000 exampleRange 1000 = 300"
proof -
  have T: "roundDouble (real_of_int (range_end exampleRange) - real_of_int (range_start exampleRange)) = 864000000"
    by (simp add: exampleRange_def roundDouble_numeral roundDouble_zero)
  have a: "roundDouble (real_of_int 259200000 - real_of_int (range_start exampleRange)) = 259200000"
    by (simp add: exampleRange_def roundDouble_numeral roundDouble_zero)
  have q: "roundDouble (259200000 / 864000000) = 5404319552844595 / 2 ^ 54"
  proof -
    have "roundDouble (259200000 / 864000000) = real_of_int 5404319552844595 / 2 ^ 54"
      by (rule roundDouble_eq_div) simp_all
    then show ?thesis by simp
  qed
  have x: "roundDouble ((5404319552844595 / 2 ^ 54) * 1000) = 300"
  proof -
    have "roundDouble ((5404319552844595 / 2 ^ 54) * 1000) = real_of_int 5277655813324800 / 2 ^ 44"
      by (rule roundDouble_eq_div) simp_all
    then show ?thesis by simp
  qed
  show ?thesis
    by (rule dateToX_eval [OF T a q x])
qed

lemma example_dateToX_four: "dateToX 345600000 exampleRange 1000 = 400"
proof -
  have T: "roundDouble (real_of_int (range_end exampleRange) - real_of_int (range_start exampleRange)) = 864000000"
    by (simp add: exampleRange_def roundDouble_numeral roundDouble_zero)
  have a: "roundDouble (real_of_int 345600000 - real_of_int (range_start exampleRange)) = 345600000"
    by (simp add: exampleRange_def roundDouble_numeral roundDouble_zero)
  have q: "roundDouble (345600000 / 864000000) = 3602879701896397 / 2 ^ 53"
  proof -
    have "roundDouble (345600000 / 864000000) = real_of_int 7205759403792794 / 2 ^ 54"
      by (rule roundDouble_eq_div) simp_all
    then show ?thesis by simp
  qed
  have x: "roundDouble ((3602879701896397 / 2 ^ 53) * 1000) = 400"
  proof -
    have "roundDouble ((3602879701896397 / 2 ^ 53) * 1000) = real_of_int 7036874417766400 / 2 ^ 44"
      by (rule roundDouble_eq_div) simp_all
    then show ?thesis by simp
  qed
  show ?thesis
    by (rule dateToX_eval [OF T a q x])
qed

lemma example_dateToX_five: "dateToX 432000000 exampleRange 1000 = 500"
proof -
  have T: "roundDouble (real_of_int (range_end exampleRange) - real_of_int (range_start exampleRange)) = 864000000"
    by (simp add: exampleRange_def roundDouble_numeral roundDouble_zero)
  have a: "roundDouble (real_of_int 432000000 - real_of_int (range_start exampleRange)) = 432000000"
    by (simp add: exampleRange_def roundDouble_numeral roundDouble_zero)
  have q: "roundDouble (432000000 / 864000000) = 1 / 2 ^ 1"
  proof -
    have "roundDouble (432000000 / 864000000) = real_of_int 4503599627370496 / 2 ^ 53"
      by (rule roundDouble_eq_div) simp_all
    then show ?thesis by simp
  qed
  have x: "roundDouble ((1 / 2 ^ 1) * 1000) = 500"
  proof -
    have "roundDouble ((1 / 2 ^ 1) * 1000) = real_of_int 8796093022208000 / 2 ^ 44"
      by (rule roundDouble_eq_div) simp_all
    then show ?thesis by simp
  qed
  show ?thesis
    by (rule dateToX_eval [OF T a q x])
qed

lemma example_xToDate_100: "xToDate (100) exampleRange 1000 = 86400000"
proof -
  have T: "roundDouble (real_of_int (range_end exampleRange) - real_of_int (range_start exampleRange)) = 864000000"
    by (simp add: exampleRange_def roundDouble_numeral roundDouble_zero)
  have q: "roundDouble (100 / 1000) = 3602879701896397 / 2 ^ 55"
  proof -
    have "roundDouble (100 / 1000) = real_of_int 7205759403792794 / 2 ^ 56"
      by (rule roundDouble_eq_div) simp_all
    then show ?thesis by simp
  qed
  have z: "roundDouble ((3602879701896397 / 2 ^ 55) * 864000000) = 86400000"
  proof -
    have "roundDouble ((3602879701896397 / 2 ^ 55) * 864000000) = real_of_int 5798205849600000 / 2 ^ 26"
      by (rule roundDouble_eq_div) simp_all
    then show ?thesis by simp
  qed
  have v: "roundDouble (real_of_int (range_start exampleRange) + 86400000) = 86400000"
  proof -
    have "roundDouble (86400000) = real_of_int 5798205849600000 / 2 ^ 26"
      by (rule roundDouble_eq_div) simp_all
    then show ?thesis by (simp add: exampleRange_def)
  qed
  have n: "newDate (86400000) = 86400000"
    by (simp add: newDate_def)
  show ?thesis
    by (rule xToDate_eval [OF T q z v n])
qed

lemma example_xToDate_400: "xToDate (400) exampleRange 1000 = 345600000"
proof -
  have T: "roundDouble (real_of_int (range_end exampleRange) - real_of_int (range_start exampleRange)) = 864000000"
    by (simp add: exampleRange_def roundDouble_numeral roundDouble_zero)
  have q: "roundDouble (400 / 1000) = 3602879701896397 / 2 ^ 53"
  proof -
    have "roundDouble (400 / 1000) = real_of_int 7205759403792794 / 2 ^ 54"
      by (rule roundDouble_eq_div) simp_all
    then show ?thesis by simp
  qed
  have z: "roundDouble ((3602879701896397 / 2 ^ 53) * 864000000) = 345600000"
  proof -
    have "roundDouble ((3602879701896397 / 2 ^ 53) * 864000000) = real_of_int 5798205849600000 / 2 ^ 24"
      by (rule roundDouble_eq_div) simp_all
    then show ?thesis by simp
  qed
  have v: "roundDouble (real_of_int (range_start exampleRange) + 345600000) = 345600000"
  proof -
    have "roundDouble (345600000) = real_of_int 5798205849600000 / 2 ^ 24"
      by (rule roundDouble_eq_div) simp_all
    then show ?thesis by (simp add: exampleRange_def)
  qed
  have n: "newDate (345600000) = 345600000"
    by (simp add: newDate_def)
  show ?thesis
    by (rule xToDate_eval [OF T q z v n])
qed

lemma epoch_xToDate_125: "xToDate (125) epochRange 160 = 269999999"
proof -
  have T: "roundDouble (real_of_int (range_end epochRange) - real_of_int (range_start epochRange)) = 345599999"
    by (simp add: epochRange_def roundDouble_numeral roundDouble_zero)
  have q: "roundDouble (125 / 160) = 25 / 2 ^ 5"
  proof -
    have "roundDouble (125 / 160) = real_of_int 7036874417766400 / 2 ^ 53"
      by (rule roundDouble_eq_div) simp_all
    then show ?thesis by simp
  qed
  have z: "roundDouble ((25 / 2 ^ 5) * 345599999) = 8639999975 / 2 ^ 5"
  proof -
    have "roundDouble ((25 / 2 ^ 5) * 345599999) = real_of_int 4529848306892800 / 2 ^ 24"
      by (rule roundDouble_eq_div) simp_all
    then show ?thesis by simp
  qed
  have v: "roundDouble (real_of_int (range_start epochRange) + (8639999975 / 2 ^ 5)) = 8639999975 / 2 ^ 5"
  proof -
    have "roundDouble (8639999975 / 2 ^ 5) = real_of_int 4529848306892800 / 2 ^ 24"
      by (rule roundDouble_eq_div) simp_all
    then show ?thesis by (simp add: epochRange_def)
  qed
  have n: "newDate (8639999975 / 2 ^ 5) = 269999999"
    by (simp add: newDate_def)
  show ?thesis
    by (rule xToDate_eval [OF T q z v n])
qed

lemma epoch_dateToX_day3: "dateToX 259200000 epochRange 160 = 8444249325753271 / 2 ^ 46"
proof -
  have T: "roundDouble (real_of_int (range_end epochRange) - real_of_int (range_start epochRange)) = 345599999"
    by (simp add: epochRange_def roundDouble_numeral roundDouble_zero)
  have a: "roundDouble (real_of_int 259200000 - real_of_int (range_start epochRange)) = 259200000"
    by (simp add: epochRange_def roundDouble_numeral roundDouble_zero)
  have q: "roundDouble (259200000 / 345599999) = 6755399460602617 / 2 ^ 53"
  proof -
    have "roundDouble (259200000 / 345599999) = real_of_int 6755399460602617 / 2 ^ 53"
      by (rule roundDouble_eq_div) simp_all
    then show ?thesis by simp
  qed
  have x: "roundDouble ((6755399460602617 / 2 ^ 53) * 160) = 8444249325753271 / 2 ^ 46"
  proof -
    have "roundDouble ((6755399460602617 / 2 ^ 53) * 160) = real_of_int 8444249325753271 / 2 ^ 46"
      by (rule roundDouble_eq_div) simp_all
    then show ?thesis by simp
  qed
  show ?thesis
    by (rule dateToX_eval [OF T a q x])
qed

lemma epoch_xToDate_day3: "xToDate (8444249325753271 / 2 ^ 46) epochRange 160 = 259199999"
proof -
  have T: "roundDouble (real_of_int (range_end epochRange) - real_of_int (range_start epochRange)) = 345599999"
    by (simp add: epochRange_def roundDouble_numeral roundDouble_zero)
  have q: "roundDouble ((8444249325753271 / 2 ^ 46) / 160) = 6755399460602617 / 2 ^ 53"
  proof -
    have "roundDouble ((8444249325753271 / 2 ^ 46) / 160) = real_of_int 6755399460602617 / 2 ^ 53"
      by (rule roundDouble_eq_div) simp_all
    then show ?thesis by simp
  qed
  have z: "roundDouble ((6755399460602617 / 2 ^ 53) * 345599999) = 8697308774399999 / 2 ^ 25"
  proof -
    have "roundDouble ((6755399460602617 / 2 ^ 53) * 345599999) = real_of_int 8697308774399999 / 2 ^ 25"
      by (rule roundDouble_eq_div) simp_all
    then show ?thesis by simp
  qed
  have v: "roundDouble (real_of_int (range_start epochRange) + (8697308774399999 / 2 ^ 25)) = 8697308774399999 / 2 ^ 25"
  proof -
    have "roundDouble (8697308774399999 / 2 ^ 25) = real_of_int 8697308774399999 / 2 ^ 25"
      by (rule roundDouble_eq_div) simp_all
    then show ?thesis by (simp add: epochRange_def)
  qed
  have n: "newDate (8697308774399999 / 2 ^ 25) = 259199999"
    by (simp add: newDate_def)
  show ?thesis
    by (rule xToDate_eval [OF T q z v n])
qed

lemma epoch_dateToX_day2: "dateToX 172800000 epochRange 160 = 5629499550502181 / 2 ^ 46"
proof -
  have T: "roundDouble (real_of_int (range_end epochRange) - real_of_int (range_start epochRange)) = 345599999"
    by (simp add: epochRange_def roundDouble_numeral roundDouble_zero)
  have a: "roundDouble (real_of_int 172800000 - real_of_int (range_start epochRange)) = 172800000"
    by (simp add: epochRange_def roundDouble_numeral roundDouble_zero)
  have q: "roundDouble (172800000 / 345599999) = 4503599640401745 / 2 ^ 53"
  proof -
    have "roundDouble (172800000 / 345599999) = real_of_int 4503599640401745 / 2 ^ 53"
      by (rule roundDouble_eq_div) simp_all
    then show ?thesis by simp
  qed
  have x: "roundDouble ((4503599640401745 / 2 ^ 53) * 160) = 5629499550502181 / 2 ^ 46"
  proof -
    have "roundDouble ((4503599640401745 / 2 ^ 53) * 160) = real_of_int 5629499550502181 / 2 ^ 46"
      by (rule roundDouble_eq_div) simp_all
    then show ?thesis by simp
  qed
  show ?thesis
    by (rule dateToX_eval [OF T a q x])
qed



subsection \<open>Snapping\<close>

lemma startOfDay_eq: "startOfDay tza d = ((d + tza) div msPerDay) * msPerDay - tza"
  by (simp add: startOfDay_def setHours_def UTC_def MakeDate_def DayNumber_def
      LocalTime_def MakeTime_def)


lemma startOfDay_idem: "startOfDay tza (startOfDay tza d) = startOfDay tza d"
  by (simp add: startOfDay_eq msPerDay_def)

lemma snapToGrid_eq:
  "snapToGrid tza x r w m = dateToX (startOfDay tza (xToDate x r w)) r w"
  by (cases m) (simp_all add: snapToGrid_def Let_def)

lemma epoch_startOfDay:
  "startOfDay 0 269999999 = 259200000"
  "startOfDay 0 259199999 = 172800000"
  by (simp_all add: startOfDay_eq msPerDay_def)

text \<open>
  Claim C10. In double-precision arithmetic \<open>snapToGrid\<close> is not idempotent. On the
  range of four days drawn 160 pixels wide, in UTC and in the day view, the position 125
  lies in the fourth day and is snapped to the pixel of the start of that day, which
  the arithmetic gives as 120.00000034722221 (8444249325753271 / \<open>2 ^ 46\<close>). The date of
  that pixel is computed as 259199999.99999997 ms and \<^verbatim>\<open>new Date\<close> drops the fraction:
  the date is the last millisecond of the third day, and the second snap gives the pixel
  of the start of the third day, 80.00000023148148 (5629499550502181 / \<open>2 ^ 46\<close>), a
  whole day (40 pixels) to the left of the first.
\<close>

theorem snapToGrid_not_idempotent:
  "snapToGrid 0 125 epochRange 160 DayMode = 8444249325753271 / 2 ^ 46
   \<and> snapToGrid 0 (snapToGrid 0 125 epochRange 160 DayMode) epochRange 160 DayMode
       = 5629499550502181 / 2 ^ 46
   \<and> snapToGrid 0 (snapToGrid 0 125 epochRange 160 DayMode) epochRange 160 DayMode
       < snapToGrid 0 125 epochRange 160 DayMode - 40"
proof -
  have a: "snapToGrid 0 125 epochRange 160 DayMode = 8444249325753271 / 2 ^ 46"
    by (simp only: snapToGrid_eq epoch_xToDate_125 epoch_startOfDay epoch_dateToX_day3)
  have b: "snapToGrid 0 (8444249325753271 / 2 ^ 46) epochRange 160 DayMode
      = 5629499550502181 / 2 ^ 46"
    by (simp only: snapToGrid_eq epoch_xToDate_day3 epoch_startOfDay epoch_dateToX_day2)
  have c: "(5629499550502181 / 2 ^ 46 :: real) < 8444249325753271 / 2 ^ 46 - 40"
    by simp
  show ?thesis
    unfolding a b using c by simp
qed

section \<open>Properties of the calendar arithmetic\<close>

text \<open>
  The day of the month of 1 January 1970, 31 December 1969, 29 February 2000,
  29 February 2024 and 1 March 2024.
\<close>

lemma DateFromTime_examples:
  "DateFromTime 0 = 1"
  "DateFromTime (- 1) = 31"
  "DateFromTime 951782400000 = 29"
  "DateFromTime 1709164800000 = 29"
  "DateFromTime 1709251200000 = 1"
  by (simp_all add: DateFromTime_def DayNumber_def msPerDay_def Let_def)

lemma DateFromTime_ge_1: "1 \<le> DateFromTime t"
proof -
  define doe where "doe = (DayNumber t + 719468) mod 146097"
  define yoe where "yoe = (doe - doe div 1460 + doe div 36524 - doe div 146096) div 365"
  define doy where "doy = doe - (365 * yoe + yoe div 4 - yoe div 100)"
  define mp where "mp = (5 * doy + 2) div 153"
  have eq: "DateFromTime t = doy - (153 * mp + 2) div 5 + 1"
    unfolding DateFromTime_def Let_def mp_def doy_def yoe_def doe_def by (rule refl)
  have "153 * mp \<le> 5 * doy + 2"
    unfolding mp_def by simp
  then have "153 * mp + 2 \<le> 5 * doy + 4" by simp
  then have "(153 * mp + 2) div 5 \<le> (5 * doy + 4) div 5"
    by (rule zdiv_mono1) simp
  also have "(5 * doy + 4) div 5 = doy" by simp
  finally show ?thesis unfolding eq by simp
qed

lemma setDate_eq:
  "setDate tza d v =
     d + ((if 0 \<le> v then \<lfloor>v\<rfloor> else \<lceil>v\<rceil>) - DateFromTime (d + tza)) * msPerDay"
proof -
  have "(d + tza) div msPerDay * msPerDay + (d + tza) mod msPerDay = d + tza"
    by simp
  then show ?thesis
    by (simp add: setDate_def Let_def UTC_def MakeDate_def LocalTime_def DayNumber_def
        TimeWithinDay_def algebra_simps)
qed

lemma addDays_floor:
  assumes "0 \<le> x \<or> x = real_of_int \<lfloor>x\<rfloor>"
  shows "addDays tza d x = d + \<lfloor>x\<rfloor> * msPerDay"
proof -
  let ?D = "DateFromTime (d + tza)"
  let ?v = "real_of_int ?D + x"
  have D: "1 \<le> ?D" by (rule DateFromTime_ge_1)
  have "(if 0 \<le> ?v then \<lfloor>?v\<rfloor> else \<lceil>?v\<rceil>) = ?D + \<lfloor>x\<rfloor>"
  proof (cases "0 \<le> x")
    case True
    then have "0 \<le> ?v" using D by simp
    then show ?thesis by simp
  next
    case False
    then have x: "x = real_of_int \<lfloor>x\<rfloor>" using assms by simp
    have "?v = real_of_int (?D + \<lfloor>x\<rfloor>)" using x by simp
    then have "\<lfloor>?v\<rfloor> = ?D + \<lfloor>x\<rfloor>" "\<lceil>?v\<rceil> = ?D + \<lfloor>x\<rfloor>"
      by (metis floor_of_int, metis ceiling_of_int)
    then show ?thesis by simp
  qed
  then show ?thesis
    by (simp add: addDays_def getDate_def LocalTime_def setDate_eq)
qed

lemma addDays_whole: "addDays tza d (real_of_int k) = d + k * msPerDay"
  using addDays_floor [of "real_of_int k" tza d] by simp

lemma floor_diffInDays: "\<lfloor>diffInDays a b\<rfloor> = (b - a) div MS_PER_DAY"
  unfolding diffInDays_def by (rule floor_divide_of_int_eq)

lemma startOfDay_add_days:
  "startOfDay tza (startOfDay tza d + k * msPerDay) = startOfDay tza d + k * msPerDay"
proof -
  have "(((d + tza) div msPerDay) * msPerDay + k * msPerDay) div msPerDay
      = (d + tza) div msPerDay + k"
    by (simp add: msPerDay_def)
  then show ?thesis
    by (simp add: startOfDay_eq algebra_simps)
qed

lemma startOfDay_shift:
  "startOfDay tza (d + k * msPerDay) = startOfDay tza d + k * msPerDay"
proof -
  have "(d + tza + k * msPerDay) div msPerDay = (d + tza) div msPerDay + k"
    by (simp add: msPerDay_def)
  then show ?thesis
    by (simp add: startOfDay_eq algebra_simps)
qed




section \<open>Properties of the date range\<close>








section \<open>Properties of the drag controller\<close>

lemma handleMouseDown_rejects:
  assumes "isDisabled task \<or> (m = Move \<and> \<not> allowDrag opts)
           \<or> ((m = ResizeLeft \<or> m = ResizeRight) \<and> \<not> allowResize opts)"
  shows "handleMouseDown opts st task cx (Some m) = (st, [])"
  using assms by (auto simp: handleMouseDown_def)

text \<open>
  Claim C9. A pointer-down on a bar leaves the state of the controller as it is and
  calls no callback when the capability of the requested mode is disabled (a move
  without \<open>allowDrag\<close>, a resize without \<open>allowResize\<close>), when the task is disabled, or
  when the task is a group.
\<close>

theorem drag_start_rejected:
  assumes "(m = Move \<and> \<not> allowDrag opts)
           \<or> ((m = ResizeLeft \<or> m = ResizeRight) \<and> \<not> allowResize opts)
           \<or> isDisabled task \<or> task_type task = Group"
  shows "handleTaskDragStart opts st task cx m = (st, [])"
  using assms by (auto simp: handleTaskDragStart_def handleMouseDown_def)

theorem drag_start_rejected_witness:
  "handleTaskDragStart (exampleOptions\<lparr>allowResize := False\<rparr>) idle exampleBar 30 ResizeLeft
     = (idle, [])
   \<and> handleTaskDragStart exampleOptions idle (exampleBar\<lparr>task_type := Group\<rparr>) 30 Move
     = (idle, [])"
  using drag_start_rejected
      [of ResizeLeft "exampleOptions\<lparr>allowResize := False\<rparr>" exampleBar idle 30]
    drag_start_rejected [of Move exampleOptions "exampleBar\<lparr>task_type := Group\<rparr>" idle 30]
  by (simp add: exampleOptions_def exampleBar_def)

lemma handleMouseDown_accepts:
  assumes "\<not> isDisabled task"
    and "m = Move \<longrightarrow> allowDrag opts" and "m \<noteq> Move \<longrightarrow> allowResize opts"
  shows "handleMouseDown opts st task cx (Some m) =
     (st\<lparr>dragState := Some \<lparr>ds_task = task, ds_mode = Some m, startX = cx,
               startTaskX = bar_x task, startTaskWidth = bar_width task,
               originalStart = task_start task, originalEnd = task_end task\<rparr>,
             previewStartRef := Some (task_start task),
             previewEndRef := Some (task_end task),
             isDragging := True,
             previewStart := Some (task_start task),
             previewEnd := Some (task_end task)\<rparr>,
         [OnDragStart task])"
  using assms by (cases m) (auto simp: handleMouseDown_def)

lemma handleMouseMove_session:
  "isDragging (fst (handleMouseMove tza opts st cx)) = isDragging st
   \<and> dragState (fst (handleMouseMove tza opts st cx)) = dragState st"
  by (auto simp: handleMouseMove_def Let_def split: option.splits prod.splits)

lemma runEvents_append:
  "runEvents tza opts st (evs1 @ evs2) =
     (let (st1, calls1) = runEvents tza opts st evs1;
          (st2, calls2) = runEvents tza opts st1 evs2
      in (st2, calls1 @ calls2))"
  by (induction evs1 arbitrary: st) (auto simp: Let_def split: prod.splits)

lemma runEvents_moves_session:
  "isDragging (fst (runEvents tza opts st (map MouseMove xs))) = isDragging st
   \<and> dragState (fst (runEvents tza opts st (map MouseMove xs))) = dragState st"
proof (induction xs arbitrary: st)
  case Nil
  show ?case by simp
next
  case (Cons x xs)
  obtain st1 c1 where h: "handleMouseMove tza opts st x = (st1, c1)"
    by (cases "handleMouseMove tza opts st x")
  have s1: "isDragging st1 = isDragging st \<and> dragState st1 = dragState st"
    using handleMouseMove_session [of tza opts st x] h by simp
  show ?case
    using Cons.IH [of st1] s1 h
    by (auto simp: handleEvent_def Let_def split: prod.splits)
qed

lemma handleKeyDown_Escape:
  assumes "isDragging st" and "dragState st = Some ds"
  shows "handleKeyDown st ''Escape'' =
     (idle, [OnDragEnd (ds_task ds) (originalStart ds) (originalEnd ds) True
               (isResizeMode (ds_mode ds))])"
  using assms by (simp add: handleKeyDown_def idle_def Let_def)

text \<open>
  Claim C8. A gesture that a pointer-down has started on a task, followed by any
  number of pointer-moves and then by the Escape key, ends with one more callback: the
  end of the drag, with the start and end the task had at the pointer-down, marked as
  cancelled. The state of the controller is idle afterwards, whatever it was before.
\<close>

theorem escape_reports_original_dates:
  assumes "\<not> isDisabled task" and "task_type task \<noteq> Group"
    and "m = Move \<longrightarrow> allowDrag opts" and "m \<noteq> Move \<longrightarrow> allowResize opts"
  shows "runEvents tza opts st (MouseDown task cx m # map MouseMove xs @ [KeyDown ''Escape''])
       = (idle, snd (runEvents tza opts st (MouseDown task cx m # map MouseMove xs))
                @ [OnDragEnd task (task_start task) (task_end task) True (m \<noteq> Move)])"
proof -
  let ?ds = "\<lparr>ds_task = task, ds_mode = Some m, startX = cx,
               startTaskX = bar_x task, startTaskWidth = bar_width task,
               originalStart = task_start task, originalEnd = task_end task\<rparr>"
  obtain st1 c1 where down: "handleTaskDragStart opts st task cx m = (st1, c1)"
    by (cases "handleTaskDragStart opts st task cx m")
  have st1: "isDragging st1" "dragState st1 = Some ?ds"
    using down handleMouseDown_accepts [OF assms(1,3,4), of st cx] assms(1,2)
    by (auto simp: handleTaskDragStart_def)
  obtain st2 c2 where moves: "runEvents tza opts st1 (map MouseMove xs) = (st2, c2)"
    by (cases "runEvents tza opts st1 (map MouseMove xs)")
  have st2: "isDragging st2" "dragState st2 = Some ?ds"
    using runEvents_moves_session [of tza opts st1 xs] moves st1 by simp_all
  have esc: "handleKeyDown st2 ''Escape'' =
      (idle, [OnDragEnd task (task_start task) (task_end task) True (m \<noteq> Move)])"
    using handleKeyDown_Escape [OF st2] by (cases m) (simp_all add: isResizeMode_def)
  show ?thesis
    using down moves esc
    by (simp add: runEvents_append handleEvent_def Let_def)
qed

theorem escape_reports_original_dates_witness:
  "fst (runEvents 0 exampleOptions idle
          (MouseDown exampleBar 10 ResizeLeft # map MouseMove [110, 410] @ [KeyDown ''Escape'']))
     = idle
   \<and> last (snd (runEvents 0 exampleOptions idle
          (MouseDown exampleBar 10 ResizeLeft # map MouseMove [110, 410] @ [KeyDown ''Escape''])))
     = OnDragEnd exampleBar 0 388800000 True True"
proof -
  have h: "\<not> isDisabled exampleBar" "task_type exampleBar \<noteq> Group"
    "ResizeLeft = Move \<longrightarrow> allowDrag exampleOptions"
    "ResizeLeft \<noteq> Move \<longrightarrow> allowResize exampleOptions"
    by (simp_all add: exampleBar_def exampleOptions_def)
  have d: "task_start exampleBar = 0" "task_end exampleBar = 388800000"
    by (simp_all add: exampleBar_def)
  show ?thesis
    using escape_reports_original_dates [OF h, of 0 idle 10 "[110, 410]"]
    by (simp add: d del: runEvents.simps)
qed

lemma handleMouseMove_active:
  assumes "isDragging st" and "dragState st = Some ds"
    and "candidateDates tza opts ds (roundDouble (cx - startX ds)) = Some (a, b)"
  shows "handleMouseMove tza opts st cx =
     (st\<lparr>previewStartRef := Some (startOfDay tza a),
         previewEndRef := Some (startOfDay tza b),
         previewStart := Some (startOfDay tza a),
         previewEnd := Some (startOfDay tza b)\<rparr>,
      [OnDragMove (ds_task ds) (startOfDay tza a) (startOfDay tza b)])"
  using assms by (simp add: handleMouseMove_def Let_def)


lemma candidateDates_ResizeLeft:
  assumes "ds_mode ds = Some ResizeLeft"
  shows "candidateDates tza opts ds dx =
     Some (if originalEnd ds
              \<le> xToDate (snapToGrid tza (roundDouble (startTaskX ds + dx)) (dateRange opts)
                           (chartWidth opts) (viewMode opts)) (dateRange opts) (chartWidth opts)
           then addDays tza (originalEnd ds) (- 1)
           else xToDate (snapToGrid tza (roundDouble (startTaskX ds + dx)) (dateRange opts)
                           (chartWidth opts) (viewMode opts)) (dateRange opts) (chartWidth opts),
           originalEnd ds)"
  using assms by (simp add: candidateDates_def Let_def)


lemma handleMouseUp_active:
  assumes "isDragging st" and "dragState st = Some ds"
    and "previewStartRef st = Some a" and "previewEndRef st = Some b"
  shows "handleMouseUp st =
     (idle, [OnDragEnd (ds_task ds) a b (a = originalStart ds \<and> b = originalEnd ds)
               (isResizeMode (ds_mode ds))])"
  using assms by (auto simp: handleMouseUp_def idle_def Let_def)


lemma example_startOfDay:
  "startOfDay 0 86400000 = 86400000"
  "startOfDay 0 345600000 = 345600000"
  "startOfDay 0 388800000 = 345600000"
  "startOfDay 0 432000000 = 432000000"
  by (simp_all add: startOfDay_eq msPerDay_def)

lemma example_snapToGrid:
  "snapToGrid 0 100 exampleRange 1000 m = 100"
  "snapToGrid 0 400 exampleRange 1000 m = 400"
  using example_xToDate_100 example_xToDate_400
  by (simp_all add: snapToGrid_eq example_startOfDay example_dateToX_one example_dateToX_four)

lemma example_down:
  "handleMouseDown exampleOptions idle exampleBar 10 (Some m) =
     (\<lparr>isDragging = True, previewStart = Some 0, previewEnd = Some 388800000,
       dragState = Some \<lparr>ds_task = exampleBar, ds_mode = Some m, startX = 10,
         startTaskX = 0, startTaskWidth = 450, originalStart = 0,
         originalEnd = 388800000\<rparr>,
       previewStartRef = Some 0, previewEndRef = Some 388800000\<rparr>,
      [OnDragStart exampleBar])"
  by (cases m) (simp_all add: handleMouseDown_def exampleOptions_def idle_def exampleBar_def)



lemma example_pointer:
  "roundDouble (0 + roundDouble (110 - 10)) = 100"
  "roundDouble (0 + roundDouble (410 - 10)) = 400"
  by (simp_all add: roundDouble_numeral)



lemma resize_left_clamped:
  assumes "range_start (dateRange opts) < range_end (dateRange opts)"
    and "0 < chartWidth opts"
    and "isDragging st" and "dragState st = Some ds" and "ds_mode ds = Some ResizeLeft"
    and "originalEnd ds
           \<le> xToDate (snapToGrid tza (roundDouble (startTaskX ds + roundDouble (cx - startX ds)))
                        (dateRange opts) (chartWidth opts) (viewMode opts))
                (dateRange opts) (chartWidth opts)"
  shows "snd (handleMouseMove tza opts st cx) =
     [OnDragMove (ds_task ds) (startOfDay tza (originalEnd ds) - msPerDay)
        (startOfDay tza (originalEnd ds))]"
proof -
  have "addDays tza (originalEnd ds) (- 1) = originalEnd ds - msPerDay"
    using addDays_whole [of tza "originalEnd ds" "- 1"] by simp
  moreover have "startOfDay tza (originalEnd ds - msPerDay) = startOfDay tza (originalEnd ds) - msPerDay"
    using startOfDay_shift [of tza "originalEnd ds" "- 1"] by simp
  ultimately show ?thesis
    using handleMouseMove_active [OF assms(3,4) candidateDates_ResizeLeft [OF assms(5)], of tza opts cx]
      assms(6)
    by simp
qed

text \<open>
  Claim C6. The clamp of a resize compares the candidate with the original date before
  both dates are normalised to the start of their day. When the clamp of the left edge
  applies, the reported start is one day before the reported end, in a time zone with a
  fixed offset (\<open>resize_left_clamped\<close>). When it does not apply, the minimum of one
  day is not kept: the task of the example ends at noon of the fifth day; its left edge
  is dragged to the start of that day, which lies before the end, so the clamp does not
  apply, and the normalisation then moves the end to the same instant. The preview has
  no duration, and the pointer-up commits it.
\<close>

theorem resize_left_zero_duration:
  "runEvents 0 exampleOptions idle [MouseDown exampleBar 10 ResizeLeft, MouseMove 410, MouseUp]
     = (idle, [OnDragStart exampleBar,
               OnDragMove exampleBar 345600000 345600000,
               OnDragEnd exampleBar 345600000 345600000 False True])"
proof -
  let ?ds = "\<lparr>ds_task = exampleBar, ds_mode = Some ResizeLeft, startX = 10,
         startTaskX = 0, startTaskWidth = 450, originalStart = 0,
         originalEnd = 388800000\<rparr>"
  let ?st = "fst (handleMouseDown exampleOptions idle exampleBar 10 (Some ResizeLeft))"
  have down: "handleTaskDragStart exampleOptions idle exampleBar 10 ResizeLeft
      = (?st, [OnDragStart exampleBar])"
    by (simp add: handleTaskDragStart_def example_down) (simp add: exampleBar_def)
  have st: "isDragging ?st" "dragState ?st = Some ?ds"
    by (simp_all add: example_down)
  have r: "roundDouble (0 + roundDouble (410 - startX ?ds)) = 400"
    using example_pointer(2) by simp
  have c: "candidateDates 0 exampleOptions ?ds (roundDouble (410 - startX ?ds))
      = Some (345600000, 388800000)"
    using candidateDates_ResizeLeft [of ?ds 0 exampleOptions "roundDouble (410 - startX ?ds)"] r
    by (simp add: exampleOptions_def example_snapToGrid example_xToDate_400)
  let ?st' = "?st\<lparr>previewStartRef := Some 345600000, previewEndRef := Some 345600000,
      previewStart := Some 345600000, previewEnd := Some 345600000\<rparr>"
  have mv: "handleMouseMove 0 exampleOptions ?st 410
      = (?st', [OnDragMove exampleBar 345600000 345600000])"
    using handleMouseMove_active [OF st c] by (simp add: example_startOfDay)
  have up: "handleMouseUp ?st'
      = (idle, [OnDragEnd exampleBar 345600000 345600000 False True])"
    using handleMouseUp_active [of ?st' ?ds 345600000 345600000]
    by (simp add: example_down isResizeMode_def)
  show ?thesis
    by (simp add: handleEvent_def down mv up)
qed

section \<open>Properties of the flattener and the position compiler\<close>

lemma those_map_total:
  "(\<And>x. x \<in> set xs \<Longrightarrow> f x \<noteq> None) \<Longrightarrow> \<exists>ys. those (map f xs) = Some ys"
  by (induction xs) (auto split: option.splits)

lemma those_map_result:
  "those (map f xs) = Some ys \<Longrightarrow> y \<in> set ys \<Longrightarrow> \<exists>x\<in>set xs. f x = Some y"
  by (induction xs arbitrary: ys) (auto split: option.splits)

lemma those_map_source:
  "those (map f xs) = Some ys \<Longrightarrow> x \<in> set xs \<Longrightarrow> \<exists>y\<in>set ys. f x = Some y"
  by (induction xs arbitrary: ys) (auto split: option.splits)

lemma find_distinct:
  assumes "distinct (map f xs)" and "x \<in> set xs"
  shows "find (\<lambda>a. f a = f x) xs = Some x"
  using assms by (induction xs) (auto simp: image_iff)

lemma childrenOf_iff:
  "c \<in> set (childrenOf tasks t) \<longleftrightarrow> c \<in> set tasks \<and> parentId c = Some (task_id t)"
  by (auto simp: childrenOf_def)

lemma parentOf_None_iff: "parentOf tasks t = None \<longleftrightarrow> isRoot tasks t"
proof
  assume n: "parentOf tasks t = None"
  show "isRoot tasks t"
  proof (rule ccontr)
    assume r: "\<not> isRoot tasks t"
    then obtain p where p: "parentId t = Some p" "p \<in> set (map task_id tasks)"
      by (auto simp: isRoot_def split: option.splits)
    then obtain a where "a \<in> set tasks" "task_id a = p" by auto
    then have "find (\<lambda>a. parentId t = Some (task_id a)) tasks \<noteq> None"
      using p by (auto simp: find_None_iff)
    then show False using n r by (simp add: parentOf_def)
  qed
next
  assume "isRoot tasks t"
  then show "parentOf tasks t = None" by (simp add: parentOf_def)
qed

lemma parentOf_Some:
  assumes "parentOf tasks c = Some t"
  shows "t \<in> set tasks \<and> parentId c = Some (task_id t) \<and> \<not> isRoot tasks c"
  using assms by (auto simp: parentOf_def find_Some_iff split: if_splits)

lemma parentOf_child:
  assumes "distinct (map task_id tasks)" and "[] \<notin> set (map task_id tasks)"
    and "t \<in> set tasks" and "parentId c = Some (task_id t)"
  shows "parentOf tasks c = Some t"
proof -
  have "task_id t \<in> set (map task_id tasks)" using assms(3) by simp
  then have nr: "\<not> isRoot tasks c"
    using assms(2,4) by (auto simp: isRoot_def)
  have e: "(\<lambda>a. parentId c = Some (task_id a)) = (\<lambda>a. task_id a = task_id t)"
    using assms(4) by auto
  have "find (\<lambda>a. parentId c = Some (task_id a)) tasks = Some t"
    unfolding e by (rule find_distinct [OF assms(1,3)])
  then show ?thesis using nr by (simp add: parentOf_def)
qed

lemma ancestors_length: "ancestors n tasks t = Some as \<Longrightarrow> length as \<le> n"
  by (induction n arbitrary: t as) (auto split: option.splits)

lemma ancestors_Suc: "ancestors n tasks t = Some as \<Longrightarrow> ancestors (Suc n) tasks t = Some as"
proof (induction n arbitrary: t as)
  case 0
  then show ?case by (auto split: option.splits)
next
  case (Suc n)
  show ?case
  proof (cases "parentOf tasks t")
    case None
    then show ?thesis using Suc.prems by simp
  next
    case (Some p)
    then obtain as' where as': "as = p # as'" "ancestors n tasks p = Some as'"
      using Suc.prems by auto
    have "ancestors (Suc n) tasks p = Some as'"
      using as'(2) by (rule Suc.IH)
    then have "map_option (\<lambda>as. p # as) (ancestors (Suc n) tasks p) = Some as"
      using as'(1) by simp
    then show ?thesis
      using Some by (subst ancestors.simps(2)) simp
  qed
qed

lemma ancestors_mono:
  assumes "ancestors n tasks t = Some as" and "n \<le> m"
  shows "ancestors m tasks t = Some as"
proof -
  have "ancestors (n + k) tasks t = Some as" for k
    by (induction k) (use assms(1) ancestors_Suc in auto)
  then show ?thesis using assms(2) by (metis le_add_diff_inverse)
qed

lemma ancestors_unique:
  assumes "ancestors n tasks t = Some as" and "ancestors m tasks t = Some bs"
  shows "as = bs"
proof -
  have "ancestors (max n m) tasks t = Some as" "ancestors (max n m) tasks t = Some bs"
    using assms by (auto intro: ancestors_mono)
  then show ?thesis by simp
qed

lemma ancestors_child:
  assumes "parentOf tasks c = Some t" and "ancestors n tasks c = Some cs"
  shows "\<exists>as. cs = t # as \<and> ancestors n tasks t = Some as"
proof (cases n)
  case 0
  then show ?thesis using assms by simp
next
  case (Suc m)
  then obtain as where "cs = t # as" "ancestors m tasks t = Some as"
    using assms by auto
  then show ?thesis using Suc ancestors_Suc by auto
qed


lemma ancestors_root: "isRoot tasks t \<Longrightarrow> ancestors n tasks t = Some []"
  by (cases n) (simp_all add: parentOf_None_iff [symmetric])

lemma addTask_Suc_Some:
  "addTask (Suc n) tasks cs t lvl pv = Some es \<longleftrightarrow>
     (\<exists>pushed.
        those (map (\<lambda>c. addTask n tasks cs c (lvl + 1) (pv \<and> task_id t \<notin> cs))
                 (childrenOf tasks t)) = Some pushed
        \<and> es = \<lparr>entry_task = t, entry_level = lvl, entry_isVisible = pv\<rparr> # concat pushed)"
  by (auto simp: Let_def)

declare addTask.simps(2) [simp del]

lemma acyclic_parentsD:
  "acyclic_parents tasks \<Longrightarrow> t \<in> set tasks
    \<Longrightarrow> \<exists>as. ancestors (length tasks) tasks t = Some as"
  by (auto simp: acyclic_parents_def list_all_iff)

lemma child_ancestors:
  assumes "distinct (map task_id tasks)" and "[] \<notin> set (map task_id tasks)"
    and "acyclic_parents tasks"
    and "t \<in> set tasks" and "ancestors (length tasks) tasks t = Some as"
    and "c \<in> set (childrenOf tasks t)"
  shows "c \<in> set tasks \<and> ancestors (length tasks) tasks c = Some (t # as)
         \<and> Suc (length as) \<le> length tasks"
proof -
  have c: "c \<in> set tasks" "parentId c = Some (task_id t)"
    using assms(6) by (simp_all add: childrenOf_iff)
  have p: "parentOf tasks c = Some t"
    using parentOf_child [OF assms(1,2,4) c(2)] .
  obtain cs where cs: "ancestors (length tasks) tasks c = Some cs"
    using acyclic_parentsD [OF assms(3) c(1)] by auto
  obtain as' where as': "cs = t # as'" "ancestors (length tasks) tasks t = Some as'"
    using ancestors_child [OF p cs] by auto
  have "as' = as" using as'(2) assms(5) by simp
  then show ?thesis
    using c(1) cs as'(1) ancestors_length [OF cs] by simp
qed

lemma addTask_total:
  assumes "distinct (map task_id tasks)" and "[] \<notin> set (map task_id tasks)"
    and "acyclic_parents tasks"
  shows "t \<in> set tasks \<Longrightarrow> ancestors (length tasks) tasks t = Some as
    \<Longrightarrow> length tasks \<le> length as + n
    \<Longrightarrow> \<exists>es. addTask (Suc n) tasks cs t lvl pv = Some es"
proof (induction n arbitrary: t as lvl pv)
  case 0
  have "childrenOf tasks t = []"
  proof (rule ccontr)
    assume "childrenOf tasks t \<noteq> []"
    then obtain c where "c \<in> set (childrenOf tasks t)"
      by (cases "childrenOf tasks t") auto
    then have "Suc (length as) \<le> length tasks"
      using child_ancestors [OF assms "0.prems"(1,2)] by simp
    then show False using "0.prems"(3) by simp
  qed
  then show ?case by (simp add: addTask_Suc_Some)
next
  case (Suc n)
  have "addTask (Suc n) tasks cs c (lvl + 1) (pv \<and> task_id t \<notin> cs) \<noteq> None"
    if "c \<in> set (childrenOf tasks t)" for c
  proof -
    have c: "c \<in> set tasks" "ancestors (length tasks) tasks c = Some (t # as)"
      using child_ancestors [OF assms Suc.prems(1,2) that] by simp_all
    have "length tasks \<le> length (t # as) + n" using Suc.prems(3) by simp
    then obtain es' where "addTask (Suc n) tasks cs c (lvl + 1) (pv \<and> task_id t \<notin> cs) = Some es'"
      using Suc.IH [OF c] by blast
    then show ?thesis by simp
  qed
  then have "\<exists>pushed. those (map (\<lambda>c. addTask (Suc n) tasks cs c (lvl + 1)
        (pv \<and> task_id t \<notin> cs)) (childrenOf tasks t)) = Some pushed"
    by (rule those_map_total)
  then show ?case by (simp only: addTask_Suc_Some) blast
qed

lemma addTask_visibility:
  assumes "distinct (map task_id tasks)" and "[] \<notin> set (map task_id tasks)"
    and "acyclic_parents tasks"
  shows "addTask k tasks cs t lvl pv = Some es \<Longrightarrow> t \<in> set tasks
    \<Longrightarrow> ancestors (length tasks) tasks t = Some as
    \<Longrightarrow> pv = (\<forall>a\<in>set as. task_id a \<notin> cs)
    \<Longrightarrow> e \<in> set es
    \<Longrightarrow> entry_task e \<in> set tasks
        \<and> (\<exists>as'. ancestors (length tasks) tasks (entry_task e) = Some as'
              \<and> entry_isVisible e = (\<forall>a\<in>set as'. task_id a \<notin> cs))"
proof (induction k arbitrary: t lvl pv es as)
  case 0
  then show ?case by simp
next
  case (Suc k)
  obtain pushed where pushed:
    "those (map (\<lambda>c. addTask k tasks cs c (lvl + 1) (pv \<and> task_id t \<notin> cs))
       (childrenOf tasks t)) = Some pushed"
    "es = \<lparr>entry_task = t, entry_level = lvl, entry_isVisible = pv\<rparr> # concat pushed"
    using Suc.prems(1) by (auto simp only: addTask_Suc_Some)
  show ?case
  proof (cases "e = \<lparr>entry_task = t, entry_level = lvl, entry_isVisible = pv\<rparr>")
    case True
    then show ?thesis using Suc.prems(2,3,4) by simp
  next
    case False
    then obtain r where r: "r \<in> set pushed" "e \<in> set r"
      using Suc.prems(5) pushed(2) by auto
    obtain c where c: "c \<in> set (childrenOf tasks t)"
      "addTask k tasks cs c (lvl + 1) (pv \<and> task_id t \<notin> cs) = Some r"
      using those_map_result [OF pushed(1) r(1)] by auto
    have ca: "c \<in> set tasks" "ancestors (length tasks) tasks c = Some (t # as)"
      using child_ancestors [OF assms Suc.prems(2,3) c(1)] by simp_all
    have "(pv \<and> task_id t \<notin> cs) = (\<forall>a\<in>set (t # as). task_id a \<notin> cs)"
      using Suc.prems(4) by auto
    then show ?thesis
      using Suc.IH [OF c(2) ca _ r(2)] by simp
  qed
qed

lemma addTask_head:
  "addTask k tasks cs t lvl pv = Some es \<Longrightarrow> \<exists>e\<in>set es. entry_task e = t"
  by (cases k) (auto simp only: addTask_Suc_Some, simp_all)

lemma addTask_closed:
  "addTask k tasks cs t lvl pv = Some es \<Longrightarrow> e \<in> set es
    \<Longrightarrow> c \<in> set (childrenOf tasks (entry_task e))
    \<Longrightarrow> \<exists>e'\<in>set es. entry_task e' = c"
proof (induction k arbitrary: t lvl pv es e)
  case 0
  then show ?case by simp
next
  case (Suc k)
  obtain pushed where pushed:
    "those (map (\<lambda>c. addTask k tasks cs c (lvl + 1) (pv \<and> task_id t \<notin> cs))
       (childrenOf tasks t)) = Some pushed"
    "es = \<lparr>entry_task = t, entry_level = lvl, entry_isVisible = pv\<rparr> # concat pushed"
    using Suc.prems(1) by (auto simp only: addTask_Suc_Some)
  show ?case
  proof (cases "e = \<lparr>entry_task = t, entry_level = lvl, entry_isVisible = pv\<rparr>")
    case True
    then have "c \<in> set (childrenOf tasks t)" using Suc.prems(3) by simp
    then obtain r where r: "r \<in> set pushed"
      "addTask k tasks cs c (lvl + 1) (pv \<and> task_id t \<notin> cs) = Some r"
      using those_map_source [OF pushed(1)] by blast
    obtain e' where "e' \<in> set r" "entry_task e' = c"
      using addTask_head [OF r(2)] by auto
    then show ?thesis using r(1) pushed(2) by auto
  next
    case False
    then obtain r where r: "r \<in> set pushed" "e \<in> set r"
      using Suc.prems(2) pushed(2) by auto
    obtain c' where c': "addTask k tasks cs c' (lvl + 1) (pv \<and> task_id t \<notin> cs) = Some r"
      using those_map_result [OF pushed(1) r(1)] by auto
    obtain e' where "e' \<in> set r" "entry_task e' = c"
      using Suc.IH [OF c' r(2) Suc.prems(3)] by auto
    then show ?thesis using r(1) pushed(2) by auto
  qed
qed


lemma extend_sel:
  "GanttTask.truncate (GanttTask.extend t (ComputedTask.fields x w ri bx bw lv co vi)) = t"
  "baselineStart (GanttTask.extend t (ComputedTask.fields x w ri bx bw lv co vi)) = baselineStart t"
  "baselineEnd (GanttTask.extend t (ComputedTask.fields x w ri bx bw lv co vi)) = baselineEnd t"
  "task_start (GanttTask.extend t (ComputedTask.fields x w ri bx bw lv co vi)) = task_start t"
  "task_end (GanttTask.extend t (ComputedTask.fields x w ri bx bw lv co vi)) = task_end t"
  "task_id (GanttTask.extend t (ComputedTask.fields x w ri bx bw lv co vi)) = task_id t"
  "bar_x (GanttTask.extend t (ComputedTask.fields x w ri bx bw lv co vi)) = x"
  "bar_width (GanttTask.extend t (ComputedTask.fields x w ri bx bw lv co vi)) = w"
  "rowIndex (GanttTask.extend t (ComputedTask.fields x w ri bx bw lv co vi)) = ri"
  "baselineX (GanttTask.extend t (ComputedTask.fields x w ri bx bw lv co vi)) = bx"
  "baselineWidth (GanttTask.extend t (ComputedTask.fields x w ri bx bw lv co vi)) = bw"
  "level (GanttTask.extend t (ComputedTask.fields x w ri bx bw lv co vi)) = lv"
  "isCollapsed (GanttTask.extend t (ComputedTask.fields x w ri bx bw lv co vi)) = co"
  "isVisible (GanttTask.extend t (ComputedTask.fields x w ri bx bw lv co vi)) = vi"
  by (cases t; simp add: GanttTask.defs ComputedTask.defs)+


lemma flattenTasks_Some:
  "flattenTasks fuel tasks cs = Some es \<longleftrightarrow>
     (\<exists>rs. those (map (\<lambda>t. addTask fuel tasks cs t 0 True) (filter (isRoot tasks) tasks))
             = Some rs \<and> es = concat rs)"
  by (auto simp: flattenTasks_def Let_def)

lemma flattenTasks_total:
  assumes "distinct (map task_id tasks)" and "[] \<notin> set (map task_id tasks)"
    and "acyclic_parents tasks" and "length tasks < fuel"
  shows "\<exists>es. flattenTasks fuel tasks cs = Some es"
proof -
  obtain n where n: "fuel = Suc n" "length tasks \<le> n"
    using assms(4) by (cases fuel) auto
  have "addTask fuel tasks cs t 0 True \<noteq> None" if "t \<in> set (filter (isRoot tasks) tasks)" for t
  proof -
    have t: "t \<in> set tasks" "ancestors (length tasks) tasks t = Some []"
      using that by (simp_all add: ancestors_root)
    have "length tasks \<le> length ([] :: GanttTask list) + n" using n(2) by simp
    then obtain es where "addTask (Suc n) tasks cs t 0 True = Some es"
      using addTask_total [OF assms(1,2,3) t] by blast
    then show ?thesis using n(1) by simp
  qed
  then have "\<exists>rs. those (map (\<lambda>t. addTask fuel tasks cs t 0 True)
      (filter (isRoot tasks) tasks)) = Some rs"
    by (rule those_map_total)
  then show ?thesis by (simp only: flattenTasks_Some) blast
qed

lemma flattenTasks_entry:
  assumes "distinct (map task_id tasks)" and "[] \<notin> set (map task_id tasks)"
    and "acyclic_parents tasks"
    and "flattenTasks fuel tasks cs = Some es" and "e \<in> set es"
  shows "entry_task e \<in> set tasks
     \<and> (\<exists>as. ancestors (length tasks) tasks (entry_task e) = Some as
            \<and> entry_isVisible e = (\<forall>a\<in>set as. task_id a \<notin> cs))"
proof -
  obtain rs where rs:
    "those (map (\<lambda>t. addTask fuel tasks cs t 0 True) (filter (isRoot tasks) tasks)) = Some rs"
    "es = concat rs"
    using assms(4) by (auto simp only: flattenTasks_Some)
  obtain r where r: "r \<in> set rs" "e \<in> set r"
    using assms(5) rs(2) by auto
  obtain t where t: "t \<in> set (filter (isRoot tasks) tasks)"
    "addTask fuel tasks cs t 0 True = Some r"
    using those_map_result [OF rs(1) r(1)] by auto
  have ta: "t \<in> set tasks" "ancestors (length tasks) tasks t = Some []"
    using t(1) by (simp_all add: ancestors_root)
  have "True = (\<forall>a\<in>set ([] :: GanttTask list). task_id a \<notin> cs)" by simp
  then show ?thesis
    by (rule addTask_visibility [OF assms(1,2,3) t(2) ta _ r(2)])
qed

lemma flattenTasks_complete:
  assumes "distinct (map task_id tasks)" and "[] \<notin> set (map task_id tasks)"
    and "acyclic_parents tasks"
    and "flattenTasks fuel tasks cs = Some es" and "t \<in> set tasks"
  shows "\<exists>e\<in>set es. entry_task e = t"
proof -
  obtain rs where rs:
    "those (map (\<lambda>t. addTask fuel tasks cs t 0 True) (filter (isRoot tasks) tasks)) = Some rs"
    "es = concat rs"
    using assms(4) by (auto simp only: flattenTasks_Some)
  have root: "\<exists>e\<in>set es. entry_task e = u" if h: "u \<in> set tasks" "isRoot tasks u" for u
  proof -
    have "u \<in> set (filter (isRoot tasks) tasks)" using h by simp
    then obtain r where r: "r \<in> set rs" "addTask fuel tasks cs u 0 True = Some r"
      using those_map_source [OF rs(1)] by blast
    obtain e where "e \<in> set r" "entry_task e = u"
      using addTask_head [OF r(2)] by auto
    then show ?thesis using r(1) rs(2) by auto
  qed
  have closed: "\<exists>e'\<in>set es. entry_task e' = c"
    if h: "e \<in> set es" "c \<in> set (childrenOf tasks (entry_task e))" for e c
  proof -
    obtain r where r: "r \<in> set rs" "e \<in> set r"
      using h(1) rs(2) by auto
    obtain u where u: "addTask fuel tasks cs u 0 True = Some r"
      using those_map_result [OF rs(1) r(1)] by auto
    obtain e' where "e' \<in> set r" "entry_task e' = c"
      using addTask_closed [OF u r(2) h(2)] by auto
    then show ?thesis using r(1) rs(2) by auto
  qed
  have reach: "ancestors n tasks u = Some as \<Longrightarrow> u \<in> set tasks
      \<Longrightarrow> \<exists>e\<in>set es. entry_task e = u" for n u as
  proof (induction n arbitrary: u as)
    case 0
    then have "isRoot tasks u"
      by (auto simp: parentOf_None_iff [symmetric] split: option.splits)
    then show ?case using root "0.prems"(2) by simp
  next
    case (Suc n)
    show ?case
    proof (cases "parentOf tasks u")
      case None
      then show ?thesis using root Suc.prems(2) by (simp add: parentOf_None_iff)
    next
      case (Some p)
      then obtain as' where as': "ancestors n tasks p = Some as'"
        using Suc.prems(1) by auto
      have p: "p \<in> set tasks" "parentId u = Some (task_id p)"
        using parentOf_Some [OF Some] by simp_all
      obtain e where e: "e \<in> set es" "entry_task e = p"
        using Suc.IH [OF as' p(1)] by auto
      have "u \<in> set (childrenOf tasks (entry_task e))"
        using e(2) p(2) Suc.prems(2) by (simp add: childrenOf_iff)
      then show ?thesis using closed [OF e(1)] by simp
    qed
  qed
  obtain as where "ancestors (length tasks) tasks t = Some as"
    using acyclic_parentsD [OF assms(3,5)] by auto
  then show ?thesis using reach assms(5) by blast
qed

lemma distinct_concat_those:
  assumes "those (map g xs) = Some rs" and "distinct xs"
    and "\<And>x r. x \<in> set xs \<Longrightarrow> g x = Some r \<Longrightarrow> distinct (map f r)"
    and "\<And>x y r s. x \<in> set xs \<Longrightarrow> y \<in> set xs \<Longrightarrow> x \<noteq> y \<Longrightarrow> g x = Some r
           \<Longrightarrow> g y = Some s \<Longrightarrow> f ` set r \<inter> f ` set s = {}"
  shows "distinct (map f (concat rs))"
  using assms
proof (induction xs arbitrary: rs)
  case Nil
  then show ?case by simp
next
  case (Cons x xs)
  obtain r rs' where r: "g x = Some r" "those (map g xs) = Some rs'" "rs = r # rs'"
    using Cons.prems(1) by (auto split: option.splits)
  have d1: "distinct (map f r)"
    using Cons.prems(3) [of x r] r(1) by simp
  have d2: "distinct (map f (concat rs'))"
  proof (rule Cons.IH [OF r(2)])
    show "distinct xs" using Cons.prems(2) by simp
    show "distinct (map f r')" if "y \<in> set xs" "g y = Some r'" for y r'
      using Cons.prems(3) [of y r'] that by simp
    show "f ` set r' \<inter> f ` set s = {}"
      if "y \<in> set xs" "z \<in> set xs" "y \<noteq> z" "g y = Some r'" "g z = Some s" for y z r' s
      using Cons.prems(4) [of y z r' s] that by simp
  qed
  have d3: "f ` set r \<inter> f ` set (concat rs') = {}"
  proof (rule ccontr)
    assume "f ` set r \<inter> f ` set (concat rs') \<noteq> {}"
    then obtain s where s: "s \<in> set rs'" "f ` set r \<inter> f ` set s \<noteq> {}"
      by auto
    obtain y where y: "y \<in> set xs" "g y = Some s"
      using those_map_result [OF r(2) s(1)] by auto
    have "x \<noteq> y" using y(1) Cons.prems(2) by auto
    then have "f ` set r \<inter> f ` set s = {}"
      using Cons.prems(4) [of x y r s] y r(1) by simp
    then show False using s(2) by simp
  qed
  show ?case
    using d1 d2 d3 by (simp add: r(3))
qed

lemma distinct_tasks: "distinct (map task_id tasks) \<Longrightarrow> distinct tasks"
  by (rule distinct_map [THEN iffD1, THEN conjunct1])

lemma addTask_chain:
  assumes "distinct (map task_id tasks)" and "[] \<notin> set (map task_id tasks)"
    and "acyclic_parents tasks"
  shows "addTask k tasks cs t lvl pv = Some es \<Longrightarrow> t \<in> set tasks
    \<Longrightarrow> ancestors (length tasks) tasks t = Some as
    \<Longrightarrow> e \<in> set es
    \<Longrightarrow> \<exists>as' pre. ancestors (length tasks) tasks (entry_task e) = Some as'
          \<and> entry_task e # as' = pre @ t # as"
proof (induction k arbitrary: t lvl pv es as)
  case 0
  then show ?case by simp
next
  case (Suc k)
  obtain pushed where pushed:
    "those (map (\<lambda>c. addTask k tasks cs c (lvl + 1) (pv \<and> task_id t \<notin> cs))
       (childrenOf tasks t)) = Some pushed"
    "es = \<lparr>entry_task = t, entry_level = lvl, entry_isVisible = pv\<rparr> # concat pushed"
    using Suc.prems(1) by (auto simp only: addTask_Suc_Some)
  show ?case
  proof (cases "e = \<lparr>entry_task = t, entry_level = lvl, entry_isVisible = pv\<rparr>")
    case True
    then show ?thesis using Suc.prems(3) by simp
  next
    case False
    then obtain r where r: "r \<in> set pushed" "e \<in> set r"
      using Suc.prems(4) pushed(2) by auto
    obtain c where c: "c \<in> set (childrenOf tasks t)"
      "addTask k tasks cs c (lvl + 1) (pv \<and> task_id t \<notin> cs) = Some r"
      using those_map_result [OF pushed(1) r(1)] by auto
    have ca: "c \<in> set tasks" "ancestors (length tasks) tasks c = Some (t # as)"
      using child_ancestors [OF assms Suc.prems(2,3) c(1)] by simp_all
    obtain as' pre where p: "ancestors (length tasks) tasks (entry_task e) = Some as'"
      "entry_task e # as' = pre @ c # t # as"
      using Suc.IH [OF c(2) ca r(2)] by auto
    have "entry_task e # as' = (pre @ [c]) @ t # as" using p(2) by simp
    then show ?thesis using p(1) by blast
  qed
qed

lemma addTask_distinct:
  assumes "distinct (map task_id tasks)" and "[] \<notin> set (map task_id tasks)"
    and "acyclic_parents tasks"
  shows "addTask k tasks cs t lvl pv = Some es \<Longrightarrow> t \<in> set tasks
    \<Longrightarrow> ancestors (length tasks) tasks t = Some as
    \<Longrightarrow> distinct (map entry_task es)"
proof (induction k arbitrary: t lvl pv es as)
  case 0
  then show ?case by simp
next
  case (Suc k)
  let ?g = "\<lambda>c. addTask k tasks cs c (lvl + 1) (pv \<and> task_id t \<notin> cs)"
  obtain pushed where pushed:
    "those (map ?g (childrenOf tasks t)) = Some pushed"
    "es = \<lparr>entry_task = t, entry_level = lvl, entry_isVisible = pv\<rparr> # concat pushed"
    using Suc.prems(1) by (auto simp only: addTask_Suc_Some)
  have child: "c \<in> set tasks \<and> ancestors (length tasks) tasks c = Some (t # as)"
    if "c \<in> set (childrenOf tasks t)" for c
    using child_ancestors [OF assms Suc.prems(2,3) that] by simp
  have dch: "distinct (childrenOf tasks t)"
    using distinct_tasks [OF assms(1)] by (simp add: childrenOf_def)
  have inner: "distinct (map entry_task (concat pushed))"
  proof (rule distinct_concat_those [OF pushed(1) dch])
    fix c r
    assume c: "c \<in> set (childrenOf tasks t)" "?g c = Some r"
    show "distinct (map entry_task r)"
      using Suc.IH [OF c(2)] child [OF c(1)] by blast
  next
    fix c c' r s
    assume c: "c \<in> set (childrenOf tasks t)" "c' \<in> set (childrenOf tasks t)" "c \<noteq> c'"
      "?g c = Some r" "?g c' = Some s"
    show "entry_task ` set r \<inter> entry_task ` set s = {}"
    proof (rule ccontr)
      assume "entry_task ` set r \<inter> entry_task ` set s \<noteq> {}"
      then obtain e e' where e: "e \<in> set r" "e' \<in> set s" "entry_task e = entry_task e'"
        by auto
      obtain as1 pre1 where p1: "ancestors (length tasks) tasks (entry_task e) = Some as1"
        "entry_task e # as1 = pre1 @ c # t # as"
        using addTask_chain [OF assms c(4) _ _ e(1)] child [OF c(1)] by blast
      obtain as2 pre2 where p2: "ancestors (length tasks) tasks (entry_task e') = Some as2"
        "entry_task e' # as2 = pre2 @ c' # t # as"
        using addTask_chain [OF assms c(5) _ _ e(2)] child [OF c(2)] by blast
      have "as1 = as2" using p1(1) p2(1) e(3) by simp
      then have "pre1 @ c # t # as = pre2 @ c' # t # as"
        using p1(2) p2(2) e(3) by simp
      then have "c = c'" by simp
      then show False using c(3) by simp
    qed
  qed
  have head: "t \<notin> entry_task ` set (concat pushed)"
  proof
    assume "t \<in> entry_task ` set (concat pushed)"
    then obtain r e where r: "r \<in> set pushed" "e \<in> set r" "entry_task e = t"
      by auto
    obtain c where c: "c \<in> set (childrenOf tasks t)" "?g c = Some r"
      using those_map_result [OF pushed(1) r(1)] by auto
    obtain as' pre where p: "ancestors (length tasks) tasks (entry_task e) = Some as'"
      "entry_task e # as' = pre @ c # t # as"
      using addTask_chain [OF assms c(2) _ _ r(2)] child [OF c(1)] by blast
    have "as' = as" using p(1) r(3) Suc.prems(3) by simp
    then have "length (t # as) = length (pre @ c # t # as)"
      using p(2) r(3) by simp
    then show False by simp
  qed
  show ?case
    using inner head by (simp add: pushed(2))
qed

lemma flattenTasks_distinct:
  assumes "distinct (map task_id tasks)" and "[] \<notin> set (map task_id tasks)"
    and "acyclic_parents tasks"
    and "flattenTasks fuel tasks cs = Some es"
  shows "distinct (map entry_task es)"
proof -
  let ?g = "\<lambda>t. addTask fuel tasks cs t 0 True"
  obtain rs where rs:
    "those (map ?g (filter (isRoot tasks) tasks)) = Some rs" "es = concat rs"
    using assms(4) by (auto simp only: flattenTasks_Some)
  have root: "t \<in> set tasks \<and> ancestors (length tasks) tasks t = Some []"
    if "t \<in> set (filter (isRoot tasks) tasks)" for t
    using that by (simp add: ancestors_root)
  have dr: "distinct (filter (isRoot tasks) tasks)"
    using distinct_tasks [OF assms(1)] by simp
  have "distinct (map entry_task (concat rs))"
  proof (rule distinct_concat_those [OF rs(1) dr])
    fix t r
    assume t: "t \<in> set (filter (isRoot tasks) tasks)" "?g t = Some r"
    show "distinct (map entry_task r)"
      using addTask_distinct [OF assms(1,2,3) t(2)] root [OF t(1)] by blast
  next
    fix t t' r s
    assume t: "t \<in> set (filter (isRoot tasks) tasks)" "t' \<in> set (filter (isRoot tasks) tasks)"
      "t \<noteq> t'" "?g t = Some r" "?g t' = Some s"
    show "entry_task ` set r \<inter> entry_task ` set s = {}"
    proof (rule ccontr)
      assume "entry_task ` set r \<inter> entry_task ` set s \<noteq> {}"
      then obtain e e' where e: "e \<in> set r" "e' \<in> set s" "entry_task e = entry_task e'"
        by auto
      obtain as1 pre1 where p1: "ancestors (length tasks) tasks (entry_task e) = Some as1"
        "entry_task e # as1 = pre1 @ [t]"
        using addTask_chain [OF assms(1,2,3) t(4) _ _ e(1)] root [OF t(1)] by blast
      obtain as2 pre2 where p2: "ancestors (length tasks) tasks (entry_task e') = Some as2"
        "entry_task e' # as2 = pre2 @ [t']"
        using addTask_chain [OF assms(1,2,3) t(5) _ _ e(2)] root [OF t(2)] by blast
      have "as1 = as2" using p1(1) p2(1) e(3) by simp
      then have "pre1 @ [t] = pre2 @ [t']"
        using p1(2) p2(2) e(3) by simp
      then have "t = t'" by simp
      then show False using t(3) by simp
    qed
  qed
  then show ?thesis by (simp add: rs(2))
qed

lemma flattenTasks_tasks:
  assumes "distinct (map task_id tasks)" and "[] \<notin> set (map task_id tasks)"
    and "acyclic_parents tasks"
    and "flattenTasks fuel tasks cs = Some es"
  shows "distinct (map entry_task es) \<and> set (map entry_task es) = set tasks"
proof -
  have "set (map entry_task es) \<subseteq> set tasks"
    using flattenTasks_entry [OF assms] by auto
  moreover have "set tasks \<subseteq> set (map entry_task es)"
    using flattenTasks_complete [OF assms] by force
  ultimately show ?thesis
    using flattenTasks_distinct [OF assms] by blast
qed

text \<open>
  Claim C3, as amended. For a task list whose ids are distinct and not empty and whose
  parent references are acyclic, the flattener returns (with a recursion depth above the
  number of tasks) and every task has exactly one entry. An entry is visible exactly
  when no ancestor of its task is in the collapsed set: a task below a collapsed
  ancestor is hidden. Step by step: the entry of a root is visible, and the entry of any
  other task is visible exactly when the entry of its parent is visible and the parent
  is not collapsed; so a collapsed task is itself visible unless an ancestor hides it.
\<close>

theorem flattenTasks_visibility:
  assumes "distinct (map task_id tasks)" and "[] \<notin> set (map task_id tasks)"
    and "acyclic_parents tasks" and "length tasks < fuel"
  shows "\<exists>es. flattenTasks fuel tasks cs = Some es
     \<and> distinct (map entry_task es) \<and> set (map entry_task es) = set tasks
     \<and> (\<forall>e\<in>set es. \<forall>as. ancestors (length tasks) tasks (entry_task e) = Some as
           \<longrightarrow> entry_isVisible e = (\<forall>a\<in>set as. task_id a \<notin> cs))
     \<and> (\<forall>e\<in>set es. isRoot tasks (entry_task e) \<longrightarrow> entry_isVisible e)
     \<and> (\<forall>e\<in>set es. \<forall>e'\<in>set es. parentOf tasks (entry_task e) = Some (entry_task e')
           \<longrightarrow> entry_isVisible e
                 = (entry_isVisible e' \<and> task_id (entry_task e') \<notin> cs))"
proof -
  obtain es where es: "flattenTasks fuel tasks cs = Some es"
    using flattenTasks_total [OF assms] by blast
  note entry = flattenTasks_entry [OF assms(1,2,3) es]
  have glob: "\<forall>e\<in>set es. \<forall>as. ancestors (length tasks) tasks (entry_task e) = Some as
           \<longrightarrow> entry_isVisible e = (\<forall>a\<in>set as. task_id a \<notin> cs)"
    using entry by fastforce
  have root: "\<forall>e\<in>set es. isRoot tasks (entry_task e) \<longrightarrow> entry_isVisible e"
  proof (intro ballI impI)
    fix e
    assume e: "e \<in> set es" "isRoot tasks (entry_task e)"
    have "ancestors (length tasks) tasks (entry_task e) = Some []"
      using e(2) by (rule ancestors_root)
    then show "entry_isVisible e" using glob e(1) by simp
  qed
  have loc: "\<forall>e\<in>set es. \<forall>e'\<in>set es. parentOf tasks (entry_task e) = Some (entry_task e')
           \<longrightarrow> entry_isVisible e
                 = (entry_isVisible e' \<and> task_id (entry_task e') \<notin> cs)"
  proof (intro ballI impI)
    fix e e'
    assume e: "e \<in> set es" "e' \<in> set es"
      "parentOf tasks (entry_task e) = Some (entry_task e')"
    obtain as where as: "ancestors (length tasks) tasks (entry_task e) = Some as"
      "entry_isVisible e = (\<forall>a\<in>set as. task_id a \<notin> cs)"
      using entry [OF e(1)] by auto
    obtain as' where as': "as = entry_task e' # as'"
      "ancestors (length tasks) tasks (entry_task e') = Some as'"
      using ancestors_child [OF e(3) as(1)] by auto
    have "entry_isVisible e' = (\<forall>a\<in>set as'. task_id a \<notin> cs)"
      using glob e(2) as'(2) by simp
    then show "entry_isVisible e = (entry_isVisible e' \<and> task_id (entry_task e') \<notin> cs)"
      using as(2) as'(1) by auto
  qed
  show ?thesis
    using es flattenTasks_tasks [OF assms(1,2,3) es] glob root loc by blast
qed

lemma computeEntry_sel:
  "GanttTask.truncate (computeEntry r w cs row e) = entry_task e"
  "baselineStart (computeEntry r w cs row e) = baselineStart (entry_task e)"
  "baselineEnd (computeEntry r w cs row e) = baselineEnd (entry_task e)"
  "task_id (computeEntry r w cs row e) = task_id (entry_task e)"
  "task_start (computeEntry r w cs row e) = task_start (entry_task e)"
  "task_end (computeEntry r w cs row e) = task_end (entry_task e)"
  "bar_x (computeEntry r w cs row e) = dateToX (task_start (entry_task e)) r w"
  "bar_width (computeEntry r w cs row e)
     = calculateBarWidth (task_start (entry_task e)) (task_end (entry_task e)) r w 4"
  "rowIndex (computeEntry r w cs row e) = row"
  "isVisible (computeEntry r w cs row e) = entry_isVisible e"
  "level (computeEntry r w cs row e) = entry_level e"
  "isCollapsed (computeEntry r w cs row e) = (task_id (entry_task e) \<in> cs)"
  by (simp_all add: computeEntry_def Let_def extend_sel)

lemma computeEntry_baseline:
  "baselineX (computeEntry r w cs row e) =
     (case (baselineStart (entry_task e), baselineEnd (entry_task e)) of
        (Some bs, Some be) \<Rightarrow> Some (dateToX bs r w) | _ \<Rightarrow> None)"
  "baselineWidth (computeEntry r w cs row e) =
     (case (baselineStart (entry_task e), baselineEnd (entry_task e)) of
        (Some bs, Some be) \<Rightarrow> Some (calculateBarWidth bs be r w 4) | _ \<Rightarrow> None)"
  by (simp_all add: computeEntry_def Let_def extend_sel split: option.splits)

lemma positionsFrom_in_set:
  "c \<in> set (positionsFrom r w cs i es)
    \<Longrightarrow> \<exists>e\<in>set es. \<exists>row. c = computeEntry r w cs row e"
  by (induction es arbitrary: i) (auto simp: Let_def)

lemma positionsFrom_tasks:
  "map GanttTask.truncate (positionsFrom r w cs i es) = map entry_task es"
  by (induction es arbitrary: i) (simp_all add: Let_def computeEntry_sel)

lemma positionsFrom_rows:
  "(\<forall>c\<in>set (positionsFrom r w cs i es). \<not> isVisible c \<longrightarrow> rowIndex c = - 1)
   \<and> map rowIndex (filter isVisible (positionsFrom r w cs i es))
     = map (\<lambda>k. i + int k) [0..<length (filter isVisible (positionsFrom r w cs i es))]"
proof (induction es arbitrary: i)
  case Nil
  show ?case by simp
next
  case (Cons e es)
  let ?n = "length (filter isVisible (positionsFrom r w cs (i + 1) es))"
  have "map (\<lambda>k. i + int k) [0..<Suc ?n] = i # map (\<lambda>k. i + 1 + int k) [0..<?n]"
    by (simp add: upt_conv_Cons map_Suc_upt [symmetric] del: upt_Suc)
  then show ?case
    using Cons.IH [of i] Cons.IH [of "i + 1"]
    by (simp add: Let_def computeEntry_sel)
qed


text \<open>
  A task whose id is the empty string, collapsed, and a task that names it as its
  parent: the ids are distinct and no task is its own ancestor. The scan for children
  finds the second task below the first, and pushes it as hidden at level 1; the root
  test reads its parent id, the empty string, as absent, and the task is pushed again
  as a visible root.
\<close>

theorem flattenTasks_empty_id_counterexample:
  "flattenTasks 3 [taskE, taskK] {''''} =
     Some [\<lparr>entry_task = taskE, entry_level = 0, entry_isVisible = True\<rparr>,
           \<lparr>entry_task = taskK, entry_level = 1, entry_isVisible = False\<rparr>,
           \<lparr>entry_task = taskK, entry_level = 0, entry_isVisible = True\<rparr>]
   \<and> parentId taskK = Some (task_id taskE) \<and> parentId taskE = None
   \<and> task_id taskE \<in> {''''} \<and> distinct (map task_id [taskE, taskK])"
  by (simp add: flattenTasks_def taskE_def taskK_def
      isRoot_def childrenOf_def addTask.simps(2) eval_nat_numeral Let_def)

lemma computeTaskPositions_Some:
  "computeTaskPositions fuel tasks r w cs = Some cts \<longleftrightarrow>
     (\<exists>es. flattenTasks fuel tasks cs = Some es \<and> cts = positionsFrom r w cs 0 es)"
  by (auto simp: computeTaskPositions_def)

text \<open>
  Claim C2. In the output of the position compiler, a computed task has a baseline
  position and a baseline width exactly when its task has both baseline dates, and then
  they are \<open>dateToX\<close> of the baseline start and \<open>calculateBarWidth\<close> of the two
  baseline dates, for the same range and width as the current bar, whose position and
  width are \<open>dateToX\<close> and \<open>calculateBarWidth\<close> of the current dates. For a task list
  whose ids are distinct and not empty and whose parent references are acyclic, the
  compiler returns and every task of the list has exactly one computed task.
\<close>

theorem baseline_uses_shared_transform:
  "(distinct (map task_id tasks) \<and> [] \<notin> set (map task_id tasks) \<and> acyclic_parents tasks
      \<and> length tasks < fuel
     \<longrightarrow> (\<exists>cts. computeTaskPositions fuel tasks r w cs = Some cts
            \<and> distinct (map GanttTask.truncate cts)
            \<and> set (map GanttTask.truncate cts) = set tasks))
   \<and> (computeTaskPositions fuel tasks r w cs = Some cts
     \<longrightarrow> (\<forall>c\<in>set cts.
           (baselineX c \<noteq> None \<longleftrightarrow> baselineStart c \<noteq> None \<and> baselineEnd c \<noteq> None)
         \<and> (baselineWidth c \<noteq> None \<longleftrightarrow> baselineStart c \<noteq> None \<and> baselineEnd c \<noteq> None)
         \<and> (\<forall>bs be. baselineStart c = Some bs \<and> baselineEnd c = Some be
               \<longrightarrow> baselineX c = Some (dateToX bs r w)
                 \<and> baselineWidth c = Some (calculateBarWidth bs be r w 4))
         \<and> bar_x c = dateToX (task_start c) r w
         \<and> bar_width c = calculateBarWidth (task_start c) (task_end c) r w 4))"
proof (intro conjI impI)
  assume wf: "distinct (map task_id tasks) \<and> [] \<notin> set (map task_id tasks)
      \<and> acyclic_parents tasks \<and> length tasks < fuel"
  then obtain es where es: "flattenTasks fuel tasks cs = Some es"
    using flattenTasks_total [of tasks fuel cs] by blast
  have "distinct (map entry_task es) \<and> set (map entry_task es) = set tasks"
    using flattenTasks_tasks [OF _ _ _ es] wf by blast
  then show "\<exists>cts. computeTaskPositions fuel tasks r w cs = Some cts
      \<and> distinct (map GanttTask.truncate cts)
      \<and> set (map GanttTask.truncate cts) = set tasks"
    using es by (simp add: computeTaskPositions_Some positionsFrom_tasks del: set_map)
next
  assume "computeTaskPositions fuel tasks r w cs = Some cts"
  then obtain es where cts: "cts = positionsFrom r w cs 0 es"
    by (auto simp: computeTaskPositions_Some)
  show "\<forall>c\<in>set cts.
           (baselineX c \<noteq> None \<longleftrightarrow> baselineStart c \<noteq> None \<and> baselineEnd c \<noteq> None)
         \<and> (baselineWidth c \<noteq> None \<longleftrightarrow> baselineStart c \<noteq> None \<and> baselineEnd c \<noteq> None)
         \<and> (\<forall>bs be. baselineStart c = Some bs \<and> baselineEnd c = Some be
               \<longrightarrow> baselineX c = Some (dateToX bs r w)
                 \<and> baselineWidth c = Some (calculateBarWidth bs be r w 4))
         \<and> bar_x c = dateToX (task_start c) r w
         \<and> bar_width c = calculateBarWidth (task_start c) (task_end c) r w 4"
  proof
    fix c
    assume "c \<in> set cts"
    then obtain e row where c: "c = computeEntry r w cs row e"
      using positionsFrom_in_set cts by blast
    show "(baselineX c \<noteq> None \<longleftrightarrow> baselineStart c \<noteq> None \<and> baselineEnd c \<noteq> None)
         \<and> (baselineWidth c \<noteq> None \<longleftrightarrow> baselineStart c \<noteq> None \<and> baselineEnd c \<noteq> None)
         \<and> (\<forall>bs be. baselineStart c = Some bs \<and> baselineEnd c = Some be
               \<longrightarrow> baselineX c = Some (dateToX bs r w)
                 \<and> baselineWidth c = Some (calculateBarWidth bs be r w 4))
         \<and> bar_x c = dateToX (task_start c) r w
         \<and> bar_width c = calculateBarWidth (task_start c) (task_end c) r w 4"
      unfolding c by (auto simp: computeEntry_sel computeEntry_baseline split: option.splits)
  qed
qed

text \<open>
  Claim C4. In the output of the position compiler, every hidden entry has the row
  index \<open>-1\<close>, and the visible entries, in the order of the output, have the row
  indices 0, 1, 2 and so on. For a task list whose ids are distinct and not empty and
  whose parent references are acyclic, the compiler returns.
\<close>

theorem rowIndex_assignment:
  "(distinct (map task_id tasks) \<and> [] \<notin> set (map task_id tasks) \<and> acyclic_parents tasks
      \<and> length tasks < fuel
     \<longrightarrow> (\<exists>cts. computeTaskPositions fuel tasks r w cs = Some cts))
   \<and> (computeTaskPositions fuel tasks r w cs = Some cts
     \<longrightarrow> (\<forall>c\<in>set cts. \<not> isVisible c \<longrightarrow> rowIndex c = - 1)
       \<and> map rowIndex (filter isVisible cts) = map int [0..<length (filter isVisible cts)])"
proof (intro conjI impI)
  assume "distinct (map task_id tasks) \<and> [] \<notin> set (map task_id tasks)
      \<and> acyclic_parents tasks \<and> length tasks < fuel"
  then obtain es where "flattenTasks fuel tasks cs = Some es"
    using flattenTasks_total [of tasks fuel cs] by blast
  then show "\<exists>cts. computeTaskPositions fuel tasks r w cs = Some cts"
    by (simp add: computeTaskPositions_Some)
next
  assume "computeTaskPositions fuel tasks r w cs = Some cts"
  then obtain es where cts: "cts = positionsFrom r w cs 0 es"
    by (auto simp: computeTaskPositions_Some)
  show "\<forall>c\<in>set cts. \<not> isVisible c \<longrightarrow> rowIndex c = - 1"
    unfolding cts using positionsFrom_rows [of r w cs 0 es] by blast
next
  assume "computeTaskPositions fuel tasks r w cs = Some cts"
  then obtain es where cts: "cts = positionsFrom r w cs 0 es"
    by (auto simp: computeTaskPositions_Some)
  show "map rowIndex (filter isVisible cts) = map int [0..<length (filter isVisible cts)]"
    unfolding cts using positionsFrom_rows [of r w cs 0 es] by simp
qed

lemma scenarioC_wf:
  "distinct (map task_id scenarioC)" "[] \<notin> set (map task_id scenarioC)"
  "acyclic_parents scenarioC" "length scenarioC < 4"
  by (simp_all add: scenarioC_def taskA_def taskB_def taskC_def acyclic_parents_def
      parentOf_def isRoot_def eval_nat_numeral)

lemma scenarioC_flat:
  "flattenTasks 4 scenarioC {''A''} =
     Some [\<lparr>entry_task = taskA, entry_level = 0, entry_isVisible = True\<rparr>,
           \<lparr>entry_task = taskB, entry_level = 1, entry_isVisible = False\<rparr>,
           \<lparr>entry_task = taskC, entry_level = 2, entry_isVisible = False\<rparr>]"
  by (simp add: flattenTasks_def scenarioC_def taskA_def taskB_def taskC_def
      isRoot_def childrenOf_def addTask.simps(2) eval_nat_numeral Let_def)


lemma scenarioC_flat_expanded:
  "flattenTasks 4 scenarioC {} =
     Some [\<lparr>entry_task = taskA, entry_level = 0, entry_isVisible = True\<rparr>,
           \<lparr>entry_task = taskB, entry_level = 1, entry_isVisible = True\<rparr>,
           \<lparr>entry_task = taskC, entry_level = 2, entry_isVisible = True\<rparr>]"
  by (simp add: flattenTasks_def scenarioC_def taskA_def taskB_def taskC_def
      isRoot_def childrenOf_def addTask.simps(2) eval_nat_numeral Let_def)

lemma scenarioC_ancestors:
  "ancestors (length scenarioC) scenarioC taskA = Some []"
  "ancestors (length scenarioC) scenarioC taskB = Some [taskA]"
  "ancestors (length scenarioC) scenarioC taskC = Some [taskB, taskA]"
  by (simp_all add: scenarioC_def taskA_def taskB_def taskC_def
      parentOf_def isRoot_def eval_nat_numeral)

theorem flattenTasks_visibility_witness:
  "flattenTasks 4 scenarioC {''A''} =
     Some [\<lparr>entry_task = taskA, entry_level = 0, entry_isVisible = True\<rparr>,
           \<lparr>entry_task = taskB, entry_level = 1, entry_isVisible = False\<rparr>,
           \<lparr>entry_task = taskC, entry_level = 2, entry_isVisible = False\<rparr>]
   \<and> ancestors (length scenarioC) scenarioC taskC = Some [taskB, taskA]"
  using flattenTasks_visibility [OF scenarioC_wf, of "{''A''}"]
  by (simp add: scenarioC_flat scenarioC_ancestors)

theorem rowIndex_assignment_witness:
  "map_option (map (\<lambda>c. (task_id c, isVisible c, rowIndex c)))
     (computeTaskPositions 4 scenarioC exampleRange 1000 {''A''})
     = Some [(''A'', True, 0), (''B'', False, - 1), (''C'', False, - 1)]
   \<and> map_option (map (\<lambda>c. (task_id c, isVisible c, rowIndex c)))
     (computeTaskPositions 4 scenarioC exampleRange 1000 {})
     = Some [(''A'', True, 0), (''B'', True, 1), (''C'', True, 2)]"
  using rowIndex_assignment [of scenarioC 4 exampleRange 1000 "{''A''}"
      "positionsFrom exampleRange 1000 {''A''} 0
         [\<lparr>entry_task = taskA, entry_level = 0, entry_isVisible = True\<rparr>,
          \<lparr>entry_task = taskB, entry_level = 1, entry_isVisible = False\<rparr>,
          \<lparr>entry_task = taskC, entry_level = 2, entry_isVisible = False\<rparr>]"]
    scenarioC_wf
  by (simp add: computeTaskPositions_def scenarioC_flat scenarioC_flat_expanded Let_def
      computeEntry_sel taskA_def taskB_def taskC_def)

theorem baseline_uses_shared_transform_witness:
  "map_option (map (\<lambda>c. (task_id c, bar_x c, bar_width c, baselineX c, baselineWidth c)))
     (computeTaskPositions 4 scenarioC exampleRange 1000 {})
     = Some [(''A'', 0, 500, None, None), (''B'', 0, 300, None, None),
             (''C'', 100, 200, Some 0, Some 200)]"
  using baseline_uses_shared_transform [of scenarioC 4 exampleRange 1000 "{}"
      "positionsFrom exampleRange 1000 {} 0
         [\<lparr>entry_task = taskA, entry_level = 0, entry_isVisible = True\<rparr>,
          \<lparr>entry_task = taskB, entry_level = 1, entry_isVisible = True\<rparr>,
          \<lparr>entry_task = taskC, entry_level = 2, entry_isVisible = True\<rparr>]"]
    scenarioC_wf
  by (simp add: computeTaskPositions_def scenarioC_flat_expanded Let_def
      computeEntry_sel computeEntry_baseline calculateBarWidth_def
      taskA_def taskB_def taskC_def example_dateToX_zero example_dateToX_one
      example_dateToX_two example_dateToX_three example_dateToX_five roundDouble_numeral)

end

